theory Spec2Isabelle
  imports
    Complex_Main
    "HOL-Library.Char_ord"
    "HOL-Library.List_Lexorder"
    "HOL-Library.Product_Lexorder"
    "HOL-Library.Multiset"
begin

section \<open>Python values\<close>

text \<open>
  The expense store of \<^verbatim>\<open>app.py\<close> works on dynamically typed values: the payload of
  \<^verbatim>\<open>add_expense\<close> is a dict, the persisted document is whatever \<^verbatim>\<open>json.load\<close> returns.
  The model keeps that: a value is one of the Python values below, the ones JSON has
  and tuples (which \<^verbatim>\<open>json.dump\<close> writes as lists). Other objects (bytes, sets,
  instances of classes) are outside the model.

  \<^item> A \<^verbatim>\<open>str\<close> is a HOL \<open>string\<close> holding the UTF-8 bytes of the text. Byte-wise
    lexicographic order on UTF-8 is Python's code point order, a comma is always the byte
    \<open>0x2C\<close>, and \<^verbatim>\<open>date.fromisoformat\<close> itself works on the UTF-8 bytes.
  \<^item> A \<^verbatim>\<open>float\<close> is its exact value, or an infinity, or NaN. Rounding to binary64 is
    modelled only where it decides a comparison with zero or finiteness (underflow to
    zero, overflow); a finite value keeps the exact decimal value otherwise.
  \<^item> A dict is an association list read with \<open>map_of\<close>; keys are strings.
\<close>

datatype pyfloat = Fin rat | PosInf | NegInf | NaN

datatype pyval =
    VNone
  | VBool bool
  | VInt int
  | VFloat pyfloat
  | VStr string
  | VList "pyval list"
  | VTuple "pyval list"
  | VDict "(string \<times> pyval) list"

text \<open>
  Exceptions are values. \<open>JSONDecodeError\<close> is a subclass of \<open>ValueError\<close> in Python;
  \<open>OSError\<close> stands for itself and its subclasses (\<^verbatim>\<open>FileNotFoundError\<close>,
  \<^verbatim>\<open>PermissionError\<close>, \<^verbatim>\<open>IsADirectoryError\<close>). \<open>NotModelled\<close> is not a Python exception: it
  marks the one place where the model stops (sorting keys that are not strings).
\<close>

datatype py_error =
    ValueError string
  | JSONDecodeError
  | TypeError
  | KeyError string
  | AttributeError
  | OverflowError
  | OSError
  | NotModelled

type_synonym 'a result = "py_error + 'a"

text \<open>Truthiness, as \<^verbatim>\<open>not x\<close>, \<^verbatim>\<open>x or y\<close> and \<^verbatim>\<open>if x\<close> read it.\<close>

fun py_truthy :: "pyval \<Rightarrow> bool" where
  "py_truthy VNone = False"
| "py_truthy (VBool b) = b"
| "py_truthy (VInt i) = (i \<noteq> 0)"
| "py_truthy (VFloat f) = (f \<noteq> Fin 0)"
| "py_truthy (VStr s) = (s \<noteq> [])"
| "py_truthy (VList xs) = (xs \<noteq> [])"
| "py_truthy (VTuple xs) = (xs \<noteq> [])"
| "py_truthy (VDict kvs) = (kvs \<noteq> [])"

text \<open>
  Since Python 3.11 the conversion of an int to its decimal text raises \<^verbatim>\<open>ValueError\<close>
  when the int has more than 4300 digits (\<^verbatim>\<open>sys.int_max_str_digits\<close>, at its default).
  \<^verbatim>\<open>str\<close>, \<^verbatim>\<open>repr\<close> and \<^verbatim>\<open>json.dump\<close> all go through that conversion, for an int itself
  and for every int inside a list, a tuple or a dict.
\<close>

definition int_too_long :: "int \<Rightarrow> bool" where
  "int_too_long i \<longleftrightarrow> 10 ^ 4300 \<le> \<bar>i\<bar>"

definition digits_error :: py_error where
  "digits_error = ValueError ''Exceeds the limit (4300 digits) for integer string conversion''"

fun ints_ok :: "pyval \<Rightarrow> bool" where
  "ints_ok (VInt i) = (\<not> int_too_long i)"
| "ints_ok (VList xs) = list_all ints_ok xs"
| "ints_ok (VTuple xs) = list_all ints_ok xs"
| "ints_ok (VDict kvs) = list_all ints_ok (map snd kvs)"
| "ints_ok v = True"

text \<open>\<^verbatim>\<open>d.get(k)\<close>, \<^verbatim>\<open>d.get(k, default)\<close> and \<^verbatim>\<open>d[k]\<close> on a dict.\<close>

definition dict_get :: "(string \<times> pyval) list \<Rightarrow> string \<Rightarrow> pyval \<Rightarrow> pyval" where
  "dict_get d k dflt = (case map_of d k of None \<Rightarrow> dflt | Some v \<Rightarrow> v)"

definition dict_item :: "(string \<times> pyval) list \<Rightarrow> string \<Rightarrow> pyval result" where
  "dict_item d k = (case map_of d k of None \<Rightarrow> Inl (KeyError k) | Some v \<Rightarrow> Inr v)"

section \<open>Strings\<close>

subsection \<open>\<^verbatim>\<open>str.strip()\<close>\<close>

text \<open>
  \<^verbatim>\<open>str.strip()\<close> removes the characters for which \<^verbatim>\<open>str.isspace\<close> holds: the code points
  9 to 13, 28 to 32, U+0085, U+00A0, U+1680, U+2000 to U+200A, U+2028, U+2029, U+202F,
  U+205F and U+3000. The list below holds their UTF-8 encodings. In valid UTF-8 an
  encoding at the left or right end of a string is that code point.
\<close>

definition ws_tokens :: "string list" where
  "ws_tokens =
     map (\<lambda>c. [c]) [CHR 0x09, CHR 0x0A, CHR 0x0B, CHR 0x0C, CHR 0x0D,
                    CHR 0x1C, CHR 0x1D, CHR 0x1E, CHR 0x1F, CHR 0x20]
     @ [[CHR 0xC2, CHR 0x85], [CHR 0xC2, CHR 0xA0], [CHR 0xE1, CHR 0x9A, CHR 0x80]]
     @ map (\<lambda>c. [CHR 0xE2, CHR 0x80, c])
         [CHR 0x80, CHR 0x81, CHR 0x82, CHR 0x83, CHR 0x84, CHR 0x85, CHR 0x86, CHR 0x87,
          CHR 0x88, CHR 0x89, CHR 0x8A, CHR 0xA8, CHR 0xA9, CHR 0xAF]
     @ [[CHR 0xE2, CHR 0x81, CHR 0x9F], [CHR 0xE3, CHR 0x80, CHR 0x80]]"

fun strip_tokens :: "string list \<Rightarrow> string \<Rightarrow> string" where
  "strip_tokens toks [] = []"
| "strip_tokens toks (c # cs) =
     (case find (\<lambda>w. w \<noteq> [] \<and> take (length w) (c # cs) = w) toks of
        None \<Rightarrow> c # cs
      | Some w \<Rightarrow> strip_tokens toks (drop (length w - 1) cs))"

definition lstrip :: "string \<Rightarrow> string" where
  "lstrip s = strip_tokens ws_tokens s"

definition rstrip :: "string \<Rightarrow> string" where
  "rstrip s = rev (strip_tokens (map rev ws_tokens) (rev s))"

definition py_strip :: "string \<Rightarrow> string" where
  "py_strip s = rstrip (lstrip s)"

subsection \<open>\<^verbatim>\<open>str.split(",")\<close>\<close>

fun split_on :: "char \<Rightarrow> string \<Rightarrow> string list" where
  "split_on d [] = [[]]"
| "split_on d (c # cs) =
     (if c = d then [] # split_on d cs
      else (case split_on d cs of [] \<Rightarrow> [[c]] | w # ws \<Rightarrow> (c # w) # ws))"

subsection \<open>Digits\<close>

definition is_digit :: "char \<Rightarrow> bool" where
  "is_digit c \<longleftrightarrow> CHR ''0'' \<le> c \<and> c \<le> CHR ''9''"

definition digit_val :: "char \<Rightarrow> nat" where
  "digit_val c = of_char c - 48"

definition nat_of_digits :: "string \<Rightarrow> nat" where
  "nat_of_digits ds = foldl (\<lambda>n c. 10 * n + digit_val c) 0 ds"

definition digit_char :: "nat \<Rightarrow> char" where
  "digit_char n = char_of (48 + n mod 10)"

text \<open>\<open>pad k n\<close>: the last \<open>k\<close> decimal digits of \<open>n\<close>, zero-padded (\<^verbatim>\<open>%02d\<close>, \<^verbatim>\<open>%04d\<close>).\<close>

fun pad :: "nat \<Rightarrow> nat \<Rightarrow> string" where
  "pad 0 n = []"
| "pad (Suc k) n = pad k (n div 10) @ [digit_char n]"

fun nat_str :: "nat \<Rightarrow> string" where
  "nat_str n = (if n < 10 then [digit_char n] else nat_str (n div 10) @ [digit_char n])"

definition int_str :: "int \<Rightarrow> string" where
  "int_str i = (if i < 0 then CHR ''-'' # nat_str (nat (- i)) else nat_str (nat i))"

subsection \<open>\<^verbatim>\<open>str(x)\<close>\<close>

text \<open>
  \<^verbatim>\<open>str\<close> of a string is the string; of \<^verbatim>\<open>None\<close>, a bool and an int it is the text below,
  and an int of more than 4300 digits raises. \<^verbatim>\<open>str\<close> of a float, a list, a tuple or a dict
  is its \<^verbatim>\<open>repr\<close>. That raises in the same way when an int inside is too long. The text
  it gives otherwise (shortest round-trip digits of a float, quoting and escaping of
  strings) is the interpreter's business: it is the parameter \<open>R\<close>, and every statement
  below holds whatever \<open>R\<close> is.
\<close>

fun py_str :: "(pyval \<Rightarrow> string) \<Rightarrow> pyval \<Rightarrow> string result" where
  "py_str R (VStr s) = Inr s"
| "py_str R VNone = Inr ''None''"
| "py_str R (VBool b) = Inr (if b then ''True'' else ''False'')"
| "py_str R (VInt i) = (if int_too_long i then Inl digits_error else Inr (int_str i))"
| "py_str R v = (if ints_ok v then Inr (R v) else Inl digits_error)"

section \<open>\<^verbatim>\<open>float(x)\<close>\<close>

text \<open>
  \<^verbatim>\<open>float\<close> returns a float unchanged, converts a bool and an int (an int too large for a
  double raises \<^verbatim>\<open>OverflowError\<close>), parses a string, and raises \<^verbatim>\<open>TypeError\<close> on
  \<^verbatim>\<open>None\<close>, a list, a tuple and a dict.

  A string is parsed as CPython does: ASCII white space is removed at both ends,
  underscores are accepted between digits only, then the text must be, after an optional
  sign, \<^verbatim>\<open>inf\<close>, \<^verbatim>\<open>infinity\<close> or \<^verbatim>\<open>nan\<close> in any letter case, or a decimal number
  \<^verbatim>\<open>digits [. digits] [e [sign] digits]\<close> with a digit before or after the point.
  The model covers ASCII text; Python also maps other Unicode decimal digits and spaces
  to ASCII first, which the model does not (it reports those strings as not numeric).
\<close>

definition to_lower :: "char \<Rightarrow> char" where
  "to_lower c = (if CHR ''A'' \<le> c \<and> c \<le> CHR ''Z'' then char_of (of_char c + (32::nat)) else c)"

definition float_space :: "char \<Rightarrow> bool" where
  "float_space c \<longleftrightarrow> c \<in> set [CHR 0x09, CHR 0x0A, CHR 0x0B, CHR 0x0C, CHR 0x0D, CHR 0x20]"

definition float_strip :: "string \<Rightarrow> string" where
  "float_strip s = rev (dropWhile float_space (rev (dropWhile float_space s)))"

text \<open>
  Underscores: one is allowed only after a digit and only before a digit. \<open>prev\<close> is the
  character before the one looked at (\<open>NUL\<close> at the start).
\<close>

fun strip_underscores :: "char \<Rightarrow> string \<Rightarrow> string option" where
  "strip_underscores prev [] = (if prev = CHR ''_'' then None else Some [])"
| "strip_underscores prev (c # cs) =
     (if c = CHR ''_'' then (if is_digit prev then strip_underscores c cs else None)
      else if prev = CHR ''_'' \<and> \<not> is_digit c then None
      else map_option ((#) c) (strip_underscores c cs))"

definition take_sign :: "string \<Rightarrow> bool \<times> string" where
  "take_sign s =
     (case s of
        [] \<Rightarrow> (False, [])
      | c # cs \<Rightarrow> if c = CHR ''-'' then (True, cs) else if c = CHR ''+'' then (False, cs) else (False, s))"

definition parse_exponent :: "string \<Rightarrow> int option" where
  "parse_exponent s =
     (case s of
        [] \<Rightarrow> Some 0
      | c # cs \<Rightarrow>
          if c = CHR ''e'' \<or> c = CHR ''E'' then
            (case take_sign cs of
               (neg, ds) \<Rightarrow>
                 if ds \<noteq> [] \<and> list_all is_digit ds
                 then Some (if neg then - int (nat_of_digits ds) else int (nat_of_digits ds))
                 else None)
          else None)"

definition scale10 :: "rat \<Rightarrow> int \<Rightarrow> rat" where
  "scale10 q e = (if 0 \<le> e then q * 10 ^ nat e else q / 10 ^ nat (- e))"

definition parse_decimal :: "string \<Rightarrow> rat option" where
  "parse_decimal s =
     (let ip = takeWhile is_digit s;
          r1 = dropWhile is_digit s;
          has_point = (r1 \<noteq> [] \<and> hd r1 = CHR ''.'');
          fp = (if has_point then takeWhile is_digit (tl r1) else []);
          r2 = (if has_point then dropWhile is_digit (tl r1) else r1)
      in if ip = [] \<and> fp = [] then None
         else (case parse_exponent r2 of
                 None \<Rightarrow> None
               | Some e \<Rightarrow> Some (scale10 (of_nat (nat_of_digits (ip @ fp))) (e - int (length fp)))))"

text \<open>
  Rounding to binary64, where it matters here: a value of magnitude at most \<open>2\<^sup>-\<^sup>1\<^sup>0\<^sup>7\<^sup>5\<close>
  rounds to zero, one of magnitude at least \<open>2\<^sup>1\<^sup>0\<^sup>2\<^sup>4 - 2\<^sup>9\<^sup>7\<^sup>0\<close> overflows.
\<close>

definition double_overflow :: "rat" where
  "double_overflow = 2 ^ 1024 - 2 ^ 970"

definition round_double :: "rat \<Rightarrow> pyfloat" where
  "round_double q =
     (if \<bar>q\<bar> \<le> 1 / 2 ^ 1075 then Fin 0
      else if double_overflow \<le> \<bar>q\<bar> then (if q < 0 then NegInf else PosInf)
      else Fin q)"

definition parse_float :: "string \<Rightarrow> pyfloat option" where
  "parse_float s =
     (case take_sign s of
        (neg, r) \<Rightarrow>
          if map to_lower r = ''inf'' \<or> map to_lower r = ''infinity''
          then Some (if neg then NegInf else PosInf)
          else if map to_lower r = ''nan'' then Some NaN
          else (case parse_decimal r of
                  None \<Rightarrow> None
                | Some q \<Rightarrow> Some (round_double (if neg then - q else q))))"

fun py_float :: "pyval \<Rightarrow> pyfloat result" where
  "py_float (VFloat f) = Inr f"
| "py_float (VBool b) = Inr (Fin (if b then 1 else 0))"
| "py_float (VInt i) =
     (if double_overflow \<le> \<bar>of_int i\<bar> then Inl OverflowError else Inr (Fin (of_int i)))"
| "py_float (VStr s) =
     (case strip_underscores (CHR 0x00) (float_strip s) of
        None \<Rightarrow> Inl (ValueError ''could not convert string to float'')
      | Some t \<Rightarrow>
          (case parse_float t of
             None \<Rightarrow> Inl (ValueError ''could not convert string to float'')
           | Some f \<Rightarrow> Inr f))"
| "py_float v = Inl TypeError"

text \<open>\<^verbatim>\<open>val <= 0\<close> on a float: false for NaN.\<close>

fun float_le_zero :: "pyfloat \<Rightarrow> bool" where
  "float_le_zero (Fin q) = (q \<le> 0)"
| "float_le_zero NegInf = True"
| "float_le_zero PosInf = False"
| "float_le_zero NaN = False"

section \<open>Validation helpers\<close>

text \<open>
  \<^verbatim>\<open>validate_amount_positive\<close>: any exception of \<^verbatim>\<open>float(x)\<close> becomes
  \<^verbatim>\<open>ValueError("amount must be a number")\<close>; a value \<^verbatim>\<open><= 0\<close> raises
  \<^verbatim>\<open>ValueError("amount must be positive")\<close>; otherwise the float is returned.
\<close>

definition validate_amount_positive :: "pyval \<Rightarrow> pyfloat result" where
  "validate_amount_positive x =
     (case py_float x of
        Inl _ \<Rightarrow> Inl (ValueError ''amount must be a number'')
      | Inr val \<Rightarrow>
          if float_le_zero val then Inl (ValueError ''amount must be positive'')
          else Inr val)"

text \<open>
  \<^verbatim>\<open>validate_required_text(s, field)\<close> raises when \<^verbatim>\<open>not s or str(s).strip() == ""\<close>.
  \<^verbatim>\<open>str(s)\<close> is evaluated only for a truthy \<open>s\<close>, and what it raises is not caught.
\<close>

definition validate_required_text :: "(pyval \<Rightarrow> string) \<Rightarrow> pyval \<Rightarrow> string \<Rightarrow> unit result" where
  "validate_required_text R s field =
     (if \<not> py_truthy s then Inl (ValueError (field @ '' is required''))
      else (case py_str R s of
              Inl e \<Rightarrow> Inl e
            | Inr t \<Rightarrow>
                if py_strip t = [] then Inl (ValueError (field @ '' is required''))
                else Inr ()))"

text \<open>
  \<^verbatim>\<open>normalize_tags\<close>: a list gives \<^verbatim>\<open>[str(tag).strip() for tag in raw if str(tag).strip()]\<close>,
  a string gives \<^verbatim>\<open>[t.strip() for t in raw.split(",") if t.strip()]\<close>, anything else
  (a tuple too: the test is \<^verbatim>\<open>isinstance(raw, list)\<close>) the empty list. The comprehension
  over a list goes from left to right; for each element it evaluates the condition and,
  when that holds, the element expression; the first \<^verbatim>\<open>str(tag)\<close> that raises ends it.
\<close>

fun tags_of_list :: "(pyval \<Rightarrow> string) \<Rightarrow> pyval list \<Rightarrow> string list result" where
  "tags_of_list R [] = Inr []"
| "tags_of_list R (tag # raw) =
     (case py_str R tag of
        Inl e \<Rightarrow> Inl e
      | Inr c \<Rightarrow>
          if py_strip c \<noteq> [] then
            (case py_str R tag of
               Inl e \<Rightarrow> Inl e
             | Inr s \<Rightarrow>
                 (case tags_of_list R raw of
                    Inl e \<Rightarrow> Inl e
                  | Inr ts \<Rightarrow> Inr (py_strip s # ts)))
          else tags_of_list R raw)"

fun normalize_tags :: "(pyval \<Rightarrow> string) \<Rightarrow> pyval \<Rightarrow> string list result" where
  "normalize_tags R (VList raw) = tags_of_list R raw"
| "normalize_tags R (VStr raw) =
     Inr (map py_strip (filter (\<lambda>t. py_strip t \<noteq> []) (split_on (CHR '','') raw)))"
| "normalize_tags R v = Inr []"

section \<open>Dates and the clock\<close>

subsection \<open>\<^verbatim>\<open>datetime.date.fromisoformat\<close>\<close>

text \<open>
  The source needs Python 3.10 or later (it writes \<^verbatim>\<open>dict | None\<close> in a signature). Up to
  3.10 \<^verbatim>\<open>date.fromisoformat\<close> accepted the form \<^verbatim>\<open>YYYY-MM-DD\<close> only; from 3.11 on it
  accepts "any valid ISO 8601 format" but reduced precision, extended years and ordinal
  dates, so also \<^verbatim>\<open>YYYYMMDD\<close> and the week dates \<^verbatim>\<open>YYYY-Www-D\<close>, \<^verbatim>\<open>YYYYWwwD\<close>,
  \<^verbatim>\<open>YYYY-Www\<close>, \<^verbatim>\<open>YYYYWww\<close>. The model follows CPython 3.11's \<^verbatim>\<open>date_fromisoformat\<close>
  and \<^verbatim>\<open>parse_isoformat_date\<close>: the UTF-8 length must be 7, 8 or 10; four digits; an
  optional \<^verbatim>\<open>-\<close>, which then must separate the next fields too; then \<^verbatim>\<open>W\<close>, two digits
  and an optional day digit, or two digits of month and two of day. A date is returned
  as its proleptic Gregorian ordinal (\<^verbatim>\<open>date.toordinal()\<close>).
\<close>

definition is_leap :: "nat \<Rightarrow> bool" where
  "is_leap y \<longleftrightarrow> y mod 4 = 0 \<and> (y mod 100 \<noteq> 0 \<or> y mod 400 = 0)"

definition days_in_month :: "nat \<Rightarrow> nat \<Rightarrow> nat" where
  "days_in_month y m =
     (if m = 2 then (if is_leap y then 29 else 28)
      else if m = 4 \<or> m = 6 \<or> m = 9 \<or> m = 11 then 30 else 31)"

text \<open>The constructor's check (\<^verbatim>\<open>check_date_args\<close>): year 1 to 9999, a real month and day.\<close>

definition check_date_args :: "nat \<Rightarrow> nat \<Rightarrow> nat \<Rightarrow> bool" where
  "check_date_args y m d \<longleftrightarrow>
     1 \<le> y \<and> y \<le> 9999 \<and> 1 \<le> m \<and> m \<le> 12 \<and> 1 \<le> d \<and> d \<le> days_in_month y m"

definition days_before_year :: "nat \<Rightarrow> nat" where
  "days_before_year y = (y - 1) * 365 + (y - 1) div 4 - (y - 1) div 100 + (y - 1) div 400"

definition days_before_month :: "nat \<Rightarrow> nat \<Rightarrow> nat" where
  "days_before_month y m = sum_list (map (days_in_month y) [1..<m])"

definition ymd_to_ord :: "nat \<Rightarrow> nat \<Rightarrow> nat \<Rightarrow> nat" where
  "ymd_to_ord y m d = days_before_year y + days_before_month y m + d"

definition max_ordinal :: nat where
  "max_ordinal = ymd_to_ord 9999 12 31"

definition iso_week1_monday :: "nat \<Rightarrow> nat" where
  "iso_week1_monday y =
     (let first_day = ymd_to_ord y 1 1;
          first_weekday = (first_day + 6) mod 7;
          week1_monday = first_day - first_weekday
      in if first_weekday > 3 then week1_monday + 7 else week1_monday)"

text \<open>
  \<^verbatim>\<open>iso_to_ymd\<close> and the constructor after it: week 1 to 52, or 53 in a year that starts
  on a Thursday, or on a Wednesday when it is a leap year; day 1 to 7; and the date must
  fall in the years 1 to 9999. (For the ISO year 0000 CPython's arithmetic ends in a
  date out of range.)
\<close>

definition iso_to_ymd :: "nat \<Rightarrow> nat \<Rightarrow> nat \<Rightarrow> nat option" where
  "iso_to_ymd iso_year iso_week iso_day =
     (let first_weekday = (ymd_to_ord iso_year 1 1 + 6) mod 7;
          week_ok = (1 \<le> iso_week \<and> iso_week \<le> 52) \<or>
                    (iso_week = 53 \<and> (first_weekday = 3 \<or> (first_weekday = 2 \<and> is_leap iso_year)));
          ordinal = iso_week1_monday iso_year + (iso_week - 1) * 7 + iso_day - 1
      in if 1 \<le> iso_year \<and> week_ok \<and> 1 \<le> iso_day \<and> iso_day \<le> 7 \<and> ordinal \<le> max_ordinal
         then Some ordinal else None)"

definition parse_digits :: "nat \<Rightarrow> string \<Rightarrow> (nat \<times> string) option" where
  "parse_digits n s =
     (if n \<le> length s \<and> list_all is_digit (take n s)
      then Some (nat_of_digits (take n s), drop n s) else None)"

definition parse_isoformat_date :: "string \<Rightarrow> nat option" where
  "parse_isoformat_date s =
     (case parse_digits 4 s of
        None \<Rightarrow> None
      | Some (year, p) \<Rightarrow>
          let uses_separator = (p \<noteq> [] \<and> hd p = CHR ''-'');
              p1 = (if uses_separator then tl p else p)
          in if p1 \<noteq> [] \<and> hd p1 = CHR ''W'' then
               (case parse_digits 2 (tl p1) of
                  None \<Rightarrow> None
                | Some (iso_week, p2) \<Rightarrow>
                    if p2 \<noteq> [] then
                      (if uses_separator \<and> hd p2 \<noteq> CHR ''-'' then None
                       else (case parse_digits 1 (if uses_separator then tl p2 else p2) of
                               None \<Rightarrow> None
                             | Some (iso_day, _) \<Rightarrow> iso_to_ymd year iso_week iso_day))
                    else iso_to_ymd year iso_week 1)
             else
               (case parse_digits 2 p1 of
                  None \<Rightarrow> None
                | Some (month, p2) \<Rightarrow>
                    if uses_separator \<and> (p2 = [] \<or> hd p2 \<noteq> CHR ''-'') then None
                    else (case parse_digits 2 (if uses_separator then tl p2 else p2) of
                            None \<Rightarrow> None
                          | Some (day, _) \<Rightarrow>
                              if check_date_args year month day
                              then Some (ymd_to_ord year month day) else None)))"

fun date_fromisoformat :: "pyval \<Rightarrow> nat result" where
  "date_fromisoformat (VStr s) =
     (if length s = 7 \<or> length s = 8 \<or> length s = 10 then
        (case parse_isoformat_date s of
           None \<Rightarrow> Inl (ValueError ''Invalid isoformat string'')
         | Some d \<Rightarrow> Inr d)
      else Inl (ValueError ''Invalid isoformat string''))"
| "date_fromisoformat v = Inl TypeError"

text \<open>
  \<^verbatim>\<open>validate_date_iso\<close>: whatever \<^verbatim>\<open>fromisoformat\<close> raises becomes
  \<^verbatim>\<open>ValueError("date must be in format YYYY-MM-DD")\<close>; the parsed date is dropped.
\<close>

definition validate_date_iso :: "pyval \<Rightarrow> unit result" where
  "validate_date_iso date_str =
     (case date_fromisoformat date_str of
        Inl _ \<Rightarrow> Inl (ValueError ''date must be in format YYYY-MM-DD'')
      | Inr _ \<Rightarrow> Inr ())"

subsection \<open>The clock\<close>

text \<open>
  \<^verbatim>\<open>date.today()\<close> and \<^verbatim>\<open>datetime.now()\<close> read the local wall clock. A reading is an input
  of the model. \<^verbatim>\<open>isoformat\<close> pads the year to four digits; \<^verbatim>\<open>strftime("%Y")\<close> prints a
  year from 1000 on with its four digits (below 1000 the padding depends on the C
  library, and the statements about ids assume a year of four digits).
\<close>

record datetime =
  year :: nat
  month :: nat
  day :: nat
  hour :: nat
  minute :: nat
  second :: nat
  microsecond :: nat

definition today_iso :: "datetime \<Rightarrow> string" where
  "today_iso t = pad 4 (year t) @ ''-'' @ pad 2 (month t) @ ''-'' @ pad 2 (day t)"

text \<open>\<^verbatim>\<open>"exp_" + now.strftime("%Y%m%d_%H%M%S%f")\<close>\<close>

definition generate_expense_id :: "datetime \<Rightarrow> string" where
  "generate_expense_id now =
     ''exp_'' @ pad 4 (year now) @ pad 2 (month now) @ pad 2 (day now) @ ''_''
       @ pad 2 (hour now) @ pad 2 (minute now) @ pad 2 (second now) @ pad 6 (microsecond now)"

section \<open>Files\<close>

text \<open>
  What the code asks of the file system is \<^verbatim>\<open>os.path.exists(path)\<close>,
  \<^verbatim>\<open>open(path, "w")\<close> followed by \<^verbatim>\<open>json.dump\<close>, and \<^verbatim>\<open>open(path, "r")\<close> followed by
  \<^verbatim>\<open>json.load\<close>. A file system maps a path to what is there:
  \<^item> \<open>Absent c\<close>: nothing; \<open>c\<close> tells whether a file can be created at the path (its
    directory exists and is writable);
  \<^item> \<open>Dir\<close>: a directory;
  \<^item> \<open>File r w c\<close>: a regular file, readable if \<open>r\<close>, writable if \<open>w\<close>, whose text is
    the JSON document \<open>Json v\<close> or is not JSON at all (\<open>Malformed\<close>).
  \<^verbatim>\<open>open(path, "w")\<close> either fails and leaves everything as it was, or it truncates the
  file (creating it if need be). \<^verbatim>\<open>json.dump\<close> then writes the document piece by
  piece. It raises \<^verbatim>\<open>ValueError\<close> when it meets an int of more than 4300 digits, and what
  it leaves in the file then is the beginning of a document, which is not JSON. When it
  does not raise, reading the file back gives the value that was written, with every
  tuple as a list. Limits of the interpreter's resources (recursion depth on values
  nested hundreds of levels deep, memory) and a write that the operating system
  interrupts (disk full) are not modelled.
\<close>

datatype content = Json pyval | Malformed

datatype node = Absent bool | Dir | File bool bool content

type_synonym fs = "string \<Rightarrow> node"

definition path_exists :: "fs \<Rightarrow> string \<Rightarrow> bool" where
  "path_exists fs p = (case fs p of Absent _ \<Rightarrow> False | _ \<Rightarrow> True)"

fun json_norm :: "pyval \<Rightarrow> pyval" where
  "json_norm (VList xs) = VList (map json_norm xs)"
| "json_norm (VTuple xs) = VList (map json_norm xs)"
| "json_norm (VDict kvs) = VDict (map (map_prod id json_norm) kvs)"
| "json_norm v = v"

definition json_dump_error :: "pyval \<Rightarrow> py_error option" where
  "json_dump_error v = (if ints_ok v then None else Some digits_error)"

text \<open>\<^verbatim>\<open>json.dump(v, f)\<close> into the file at \<open>p\<close>, which \<^verbatim>\<open>open(p, "w")\<close> has just truncated.\<close>

definition json_dump :: "fs \<Rightarrow> string \<Rightarrow> bool \<Rightarrow> pyval \<Rightarrow> unit result \<times> fs" where
  "json_dump fs p r v =
     (case json_dump_error v of
        Some e \<Rightarrow> (Inl e, fs(p := File r True Malformed))
      | None \<Rightarrow> (Inr (), fs(p := File r True (Json (json_norm v)))))"

text \<open>\<^verbatim>\<open>with open(p, "w") as f: json.dump(v, f)\<close>\<close>

definition write_json :: "fs \<Rightarrow> string \<Rightarrow> pyval \<Rightarrow> unit result \<times> fs" where
  "write_json fs p v =
     (case fs p of
        Absent creatable \<Rightarrow> if creatable then json_dump fs p True v else (Inl OSError, fs)
      | Dir \<Rightarrow> (Inl OSError, fs)
      | File r w c \<Rightarrow> if w then json_dump fs p r v else (Inl OSError, fs))"

definition read_json :: "fs \<Rightarrow> string \<Rightarrow> pyval result" where
  "read_json fs p =
     (case fs p of
        Absent _ \<Rightarrow> Inl OSError
      | Dir \<Rightarrow> Inl OSError
      | File r w c \<Rightarrow>
          if r then (case c of Json v \<Rightarrow> Inr v | Malformed \<Rightarrow> Inl JSONDecodeError)
          else Inl OSError)"

text \<open>\<^verbatim>\<open>os.path.join\<close> (POSIX) of two components, and the path of a user's document.\<close>

definition path_join :: "string \<Rightarrow> string \<Rightarrow> string" where
  "path_join a b =
     (if b \<noteq> [] \<and> hd b = CHR ''/'' then b
      else if a = [] \<or> last a = CHR ''/'' then a @ b
      else a @ ''/'' @ b)"

definition expenses_path :: "string \<Rightarrow> string" where
  "expenses_path username = path_join (path_join ''data'' username) ''expanses.json''"

section \<open>Load and save\<close>

text \<open>\<^verbatim>\<open>data.get("expenses", [])\<close>: only a dict has \<^verbatim>\<open>get\<close>.\<close>

fun py_get :: "pyval \<Rightarrow> string \<Rightarrow> pyval \<Rightarrow> pyval result" where
  "py_get (VDict kvs) k dflt = Inr (dict_get kvs k dflt)"
| "py_get v k dflt = Inl AttributeError"

text \<open>
  Every operation on the store returns its outcome together with the file system it
  leaves behind, so that a failure can be asked what it changed.
\<close>

definition load_expenses :: "fs \<Rightarrow> string \<Rightarrow> pyval result \<times> fs" where
  "load_expenses fs username =
     (let path = expenses_path username in
      if \<not> path_exists fs path then
        (case write_json fs path (VDict [(''expenses'', VList [])]) of
           (Inl e, fs') \<Rightarrow> (Inl e, fs')
         | (Inr _, fs') \<Rightarrow> (Inr (VList []), fs'))
      else
        (case read_json fs path of
           Inl e \<Rightarrow> (Inl e, fs)
         | Inr data \<Rightarrow> (py_get data ''expenses'' (VList []), fs)))"

definition save_expenses :: "fs \<Rightarrow> string \<Rightarrow> pyval \<Rightarrow> unit result \<times> fs" where
  "save_expenses fs username items =
     write_json fs (expenses_path username) (VDict [(''expenses'', items)])"

section \<open>Adding an expense\<close>

text \<open>\<^verbatim>\<open>items.append(x)\<close>: only a list has \<^verbatim>\<open>append\<close>.\<close>

fun py_append :: "pyval \<Rightarrow> pyval \<Rightarrow> pyval result" where
  "py_append (VList xs) x = Inr (VList (xs @ [x]))"
| "py_append v x = Inl AttributeError"

text \<open>\<^verbatim>\<open>payload.get("date") or today_iso()\<close>: the clock is read only when the value is falsy.\<close>

definition resolve_date :: "(string \<times> pyval) list \<Rightarrow> datetime \<Rightarrow> pyval" where
  "resolve_date payload today =
     (let d = dict_get payload ''date'' VNone
      in if py_truthy d then d else VStr (today_iso today))"

definition new_expense ::
  "string \<Rightarrow> pyval \<Rightarrow> pyfloat \<Rightarrow> pyval \<Rightarrow> pyval \<Rightarrow> pyval \<Rightarrow> string list \<Rightarrow> pyval" where
  "new_expense eid date_str amount_val category desc method tags =
     VDict [(''id'', VStr eid),
            (''date'', date_str),
            (''amount'', VFloat amount_val),
            (''category'', category),
            (''description'', desc),
            (''payment_method'', method),
            (''tags'', VList (map VStr tags))]"

text \<open>
  \<^verbatim>\<open>add_expense(username, payload)\<close>, in the order of the source: resolve and validate
  the date, validate the amount, validate the category, read the optional fields and
  normalise the tags, load, generate the id, build the entry (\<^verbatim>\<open>payload["category"]\<close>),
  append, save, return the id. \<open>today\<close> and \<open>now\<close> are the two readings of the clock.
\<close>

definition add_expense ::
  "(pyval \<Rightarrow> string) \<Rightarrow> fs \<Rightarrow> string \<Rightarrow> (string \<times> pyval) list \<Rightarrow> datetime \<Rightarrow> datetime
     \<Rightarrow> string result \<times> fs" where
  "add_expense R fs username payload today now =
     (let date_str = resolve_date payload today in
      case validate_date_iso date_str of
        Inl e \<Rightarrow> (Inl e, fs)
      | Inr _ \<Rightarrow>
     (case validate_amount_positive (dict_get payload ''amount'' VNone) of
        Inl e \<Rightarrow> (Inl e, fs)
      | Inr amount_val \<Rightarrow>
     (case validate_required_text R (dict_get payload ''category'' VNone) ''category'' of
        Inl e \<Rightarrow> (Inl e, fs)
      | Inr _ \<Rightarrow>
     (let desc = dict_get payload ''description'' (VStr []);
          method = dict_get payload ''payment_method'' (VStr [])
      in case normalize_tags R (dict_get payload ''tags'' VNone) of
        Inl e \<Rightarrow> (Inl e, fs)
      | Inr tags \<Rightarrow>
     (case load_expenses fs username of
        (Inl e, fs1) \<Rightarrow> (Inl e, fs1)
      | (Inr items, fs1) \<Rightarrow>
     (let eid = generate_expense_id now in
      case dict_item payload ''category'' of
        Inl e \<Rightarrow> (Inl e, fs1)
      | Inr category \<Rightarrow>
     (case py_append items (new_expense eid date_str amount_val category desc method tags) of
        Inl e \<Rightarrow> (Inl e, fs1)
      | Inr items' \<Rightarrow>
     (case save_expenses fs1 username items' of
        (Inl e, fs2) \<Rightarrow> (Inl e, fs2)
      | (Inr _, fs2) \<Rightarrow> (Inr eid, fs2)))))))))"

text \<open>
  A run of sequential calls: each call gets its payload and its two clock readings, and
  works on the file system the previous call left. The run returns the outcome of every
  call, in order.
\<close>

fun add_expenses ::
  "(pyval \<Rightarrow> string) \<Rightarrow> fs \<Rightarrow> string \<Rightarrow> ((string \<times> pyval) list \<times> datetime \<times> datetime) list
     \<Rightarrow> string result list \<times> fs" where
  "add_expenses R fs username [] = ([], fs)"
| "add_expenses R fs username ((payload, today, now) # calls) =
     (case add_expense R fs username payload today now of
        (r, fs1) \<Rightarrow>
          (case add_expenses R fs1 username calls of
             (rs, fs2) \<Rightarrow> (r # rs, fs2)))"

section \<open>Listing expenses\<close>

text \<open>
  \<^verbatim>\<open>e["date"]\<close>: a dict gives the value or \<^verbatim>\<open>KeyError\<close>; a list or a string wants an
  integer index, any other value has no subscript (\<^verbatim>\<open>TypeError\<close>).
\<close>

fun py_item :: "pyval \<Rightarrow> string \<Rightarrow> pyval result" where
  "py_item (VDict kvs) k = dict_item kvs k"
| "py_item v k = Inl TypeError"

text \<open>
  A filter value is a string. \<^verbatim>\<open>x >= s\<close> and \<^verbatim>\<open>x <= s\<close> with a string \<open>s\<close> compare two
  strings by code point and raise \<^verbatim>\<open>TypeError\<close> when \<open>x\<close> is no string; \<^verbatim>\<open>x == s\<close> holds
  exactly when \<open>x\<close> is the same string.
\<close>

fun str_ge :: "pyval \<Rightarrow> string \<Rightarrow> bool result" where
  "str_ge (VStr a) s = Inr (s \<le> a)"
| "str_ge v s = Inl TypeError"

fun str_le :: "pyval \<Rightarrow> string \<Rightarrow> bool result" where
  "str_le (VStr a) s = Inr (a \<le> s)"
| "str_le v s = Inl TypeError"

text \<open>
  \<^verbatim>\<open>for e in items\<close>: the elements of a list or a tuple, the keys of a dict, the characters of a
  string (any of which then fails at \<^verbatim>\<open>e["date"]\<close>); other values are not iterable.
\<close>

fun py_iter :: "pyval \<Rightarrow> pyval list result" where
  "py_iter (VList xs) = Inr xs"
| "py_iter (VTuple xs) = Inr xs"
| "py_iter (VDict kvs) = Inr (map (\<lambda>kv. VStr (fst kv)) kvs)"
| "py_iter (VStr s) = Inr (map (\<lambda>c. VStr [c]) s)"
| "py_iter v = Inl TypeError"

text \<open>\<^verbatim>\<open>[e for e in xs if p(e)]\<close>, left to right, stopping at the first exception.\<close>

fun filter_m :: "('a \<Rightarrow> bool result) \<Rightarrow> 'a list \<Rightarrow> 'a list result" where
  "filter_m p [] = Inr []"
| "filter_m p (x # xs) =
     (case p x of
        Inl e \<Rightarrow> Inl e
      | Inr b \<Rightarrow>
          (case filter_m p xs of
             Inl e \<Rightarrow> Inl e
           | Inr ys \<Rightarrow> Inr (if b then x # ys else ys)))"

definition comprehension :: "(pyval \<Rightarrow> bool result) \<Rightarrow> pyval \<Rightarrow> pyval result" where
  "comprehension p items =
     (case py_iter items of
        Inl e \<Rightarrow> Inl e
      | Inr xs \<Rightarrow> (case filter_m p xs of Inl e \<Rightarrow> Inl e | Inr ys \<Rightarrow> Inr (VList ys)))"

definition from_date_ok :: "string \<Rightarrow> pyval \<Rightarrow> bool result" where
  "from_date_ok f e = (case py_item e ''date'' of Inl x \<Rightarrow> Inl x | Inr d \<Rightarrow> str_ge d f)"

definition to_date_ok :: "string \<Rightarrow> pyval \<Rightarrow> bool result" where
  "to_date_ok t e = (case py_item e ''date'' of Inl x \<Rightarrow> Inl x | Inr d \<Rightarrow> str_le d t)"

definition category_ok :: "string \<Rightarrow> pyval \<Rightarrow> bool result" where
  "category_ok c e = (case py_item e ''category'' of Inl x \<Rightarrow> Inl x | Inr v \<Rightarrow> Inr (v = VStr c))"

text \<open>The three \<^verbatim>\<open>if "..." in filters\<close> steps, each on the result of the one before.\<close>

definition filter_step ::
  "(string \<times> string) list \<Rightarrow> string \<Rightarrow> (string \<Rightarrow> pyval \<Rightarrow> bool result) \<Rightarrow> pyval \<Rightarrow> pyval result" where
  "filter_step filters k p items =
     (case map_of filters k of None \<Rightarrow> Inr items | Some v \<Rightarrow> comprehension (p v) items)"

definition apply_filters :: "(string \<times> string) list option \<Rightarrow> pyval \<Rightarrow> pyval result" where
  "apply_filters filters items =
     (case filters of
        None \<Rightarrow> Inr items
      | Some f \<Rightarrow>
          if f = [] then Inr items
          else
            (case filter_step f ''from_date'' from_date_ok items of
               Inl e \<Rightarrow> Inl e
             | Inr items1 \<Rightarrow>
                 (case filter_step f ''to_date'' to_date_ok items1 of
                    Inl e \<Rightarrow> Inl e
                  | Inr items2 \<Rightarrow> filter_step f ''category'' category_ok items2)))"

text \<open>
  \<^verbatim>\<open>items.sort(key=lambda e: (e["date"], e["id"]), reverse=True)\<close>. Only a list has
  \<^verbatim>\<open>sort\<close>. The key is computed for every element first. CPython then reverses the list,
  sorts it stably by ascending key and reverses the result. Two tuples of strings are
  compared lexicographically. Keys that are not pairs of strings are where the model
  stops: what Python does with them depends on which comparisons the sort performs.
\<close>

definition sort_key_of :: "pyval \<Rightarrow> (pyval \<times> pyval) result" where
  "sort_key_of e =
     (case py_item e ''date'' of
        Inl x \<Rightarrow> Inl x
      | Inr d \<Rightarrow> (case py_item e ''id'' of Inl x \<Rightarrow> Inl x | Inr i \<Rightarrow> Inr (d, i)))"

fun map_m :: "('a \<Rightarrow> 'b result) \<Rightarrow> 'a list \<Rightarrow> 'b list result" where
  "map_m f [] = Inr []"
| "map_m f (x # xs) =
     (case f x of
        Inl e \<Rightarrow> Inl e
      | Inr y \<Rightarrow> (case map_m f xs of Inl e \<Rightarrow> Inl e | Inr ys \<Rightarrow> Inr (y # ys)))"

fun str_keys :: "(pyval \<times> pyval) list \<Rightarrow> (string \<times> string) list option" where
  "str_keys [] = Some []"
| "str_keys ((VStr d, VStr i) # ks) = map_option ((#) (d, i)) (str_keys ks)"
| "str_keys (k # ks) = None"

definition sort_reverse :: "('k::linorder \<times> 'a) list \<Rightarrow> 'a list" where
  "sort_reverse kxs = map snd (rev (sort_key fst (rev kxs)))"

definition py_sort :: "pyval \<Rightarrow> pyval list result" where
  "py_sort items =
     (case items of
        VList xs \<Rightarrow>
          (case map_m sort_key_of xs of
             Inl e \<Rightarrow> Inl e
           | Inr keys \<Rightarrow>
               (case str_keys keys of
                  None \<Rightarrow> Inl NotModelled
                | Some ks \<Rightarrow> Inr (sort_reverse (zip ks xs))))
      | _ \<Rightarrow> Inl AttributeError)"

definition list_expenses ::
  "fs \<Rightarrow> string \<Rightarrow> (string \<times> string) list option \<Rightarrow> pyval list result \<times> fs" where
  "list_expenses fs username filters =
     (case load_expenses fs username of
        (Inl e, fs1) \<Rightarrow> (Inl e, fs1)
      | (Inr items, fs1) \<Rightarrow>
          (case apply_filters filters items of
             Inl e \<Rightarrow> (Inl e, fs1)
           | Inr items1 \<Rightarrow> (py_sort items1, fs1)))"

section \<open>Notions used in the statements\<close>

subsection \<open>Clock readings and runs of calls\<close>

text \<open>
  The chronological order of two clock readings is the lexicographic order of their
  fields, as \<^verbatim>\<open>datetime\<close> compares. A reading that \<^verbatim>\<open>datetime.now()\<close> can return has its
  fields in range; \<open>valid_reading\<close> also asks for a year of four digits.
\<close>

definition dt_key :: "datetime \<Rightarrow> nat \<times> nat \<times> nat \<times> nat \<times> nat \<times> nat \<times> nat" where
  "dt_key t = (year t, month t, day t, hour t, minute t, second t, microsecond t)"

definition valid_reading :: "datetime \<Rightarrow> bool" where
  "valid_reading t \<longleftrightarrow>
     1000 \<le> year t \<and> year t \<le> 9999 \<and> 1 \<le> month t \<and> month t \<le> 12 \<and>
     1 \<le> day t \<and> day t \<le> 31 \<and> hour t < 24 \<and> minute t < 60 \<and> second t < 60 \<and>
     microsecond t < 1000000"

text \<open>The ids a run of calls returned, in the order of the calls.\<close>

fun returned_ids :: "string result list \<Rightarrow> string list" where
  "returned_ids [] = []"
| "returned_ids (Inr i # rs) = i # returned_ids rs"
| "returned_ids (Inl e # rs) = returned_ids rs"

definition now_of :: "(string \<times> pyval) list \<times> datetime \<times> datetime \<Rightarrow> datetime" where
  "now_of call = snd (snd call)"

subsection \<open>Example data\<close>

text \<open>
  A file system on which nothing exists yet and every file can be created; one on which
  no file can be created (no user directory); a clock reading; a payload with an amount
  and a category and no date; and a \<^verbatim>\<open>repr\<close>.
\<close>

definition fresh_fs :: fs where
  "fresh_fs = (\<lambda>p. Absent True)"

definition no_dir_fs :: fs where
  "no_dir_fs = (\<lambda>p. Absent False)"

definition clock_0 :: datetime where
  "clock_0 = \<lparr>year = 2025, month = 9, day = 7, hour = 15, minute = 30, second = 45,
              microsecond = 123\<rparr>"

definition clock_1 :: datetime where
  "clock_1 = \<lparr>year = 2025, month = 9, day = 7, hour = 15, minute = 30, second = 45,
              microsecond = 124\<rparr>"

definition payload_food :: "(string \<times> pyval) list" where
  "payload_food = [(''amount'', VInt 10), (''category'', VStr ''Food'')]"

definition repr_0 :: "pyval \<Rightarrow> string" where
  "repr_0 v = ''?''"

text \<open>
  A file system on which every file holds text that is not JSON, and one on which every
  file holds the document \<^verbatim>\<open>{"expenses": items}\<close>.
\<close>

definition corrupt_fs :: fs where
  "corrupt_fs = (\<lambda>p. File True True Malformed)"

definition store_fs :: "pyval list \<Rightarrow> fs" where
  "store_fs items = (\<lambda>p. File True True (Json (VDict [(''expenses'', VList items)])))"


definition payload_empty_date :: "(string \<times> pyval) list" where
  "payload_empty_date = [(''date'', VStr []), (''amount'', VInt 10), (''category'', VStr ''Food'')]"

definition payload_spaced :: "(string \<times> pyval) list" where
  "payload_spaced = [(''amount'', VInt 10), (''category'', VStr '' Food '')]"

text \<open>
  The entry that \<^verbatim>\<open>add_expense\<close> builds from \<open>payload_food\<close> at the reading \<open>clock_0\<close>, the
  same entry with the category of \<open>payload_spaced\<close>, and the file systems that hold one of
  them as alice's only entry.
\<close>

definition entry_food :: pyval where
  "entry_food =
     VDict [(''id'', VStr ''exp_20250907_153045000123''),
            (''date'', VStr ''2025-09-07''),
            (''amount'', VFloat (Fin 10)),
            (''category'', VStr ''Food''),
            (''description'', VStr []),
            (''payment_method'', VStr []),
            (''tags'', VList [])]"

definition entry_spaced :: pyval where
  "entry_spaced =
     VDict [(''id'', VStr ''exp_20250907_153045000123''),
            (''date'', VStr ''2025-09-07''),
            (''amount'', VFloat (Fin 10)),
            (''category'', VStr '' Food ''),
            (''description'', VStr []),
            (''payment_method'', VStr []),
            (''tags'', VList [])]"

definition fs_with :: "pyval \<Rightarrow> fs" where
  "fs_with entry =
     fresh_fs(expenses_path ''alice'' :=
       File True True (Json (VDict [(''expenses'', VList [entry])])))"

subsection \<open>Entries of a collection\<close>

text \<open>
  The data model of the store: an entry is a dict whose \<^verbatim>\<open>date\<close> and \<^verbatim>\<open>id\<close> are strings and
  which has a \<^verbatim>\<open>category\<close>. \<^verbatim>\<open>add_expense\<close> writes such entries only. The sort key of an
  entry is the pair of its date and its id.
\<close>

definition entry_date :: "pyval \<Rightarrow> string option" where
  "entry_date e = (case py_item e ''date'' of Inr (VStr d) \<Rightarrow> Some d | _ \<Rightarrow> None)"

definition entry_id :: "pyval \<Rightarrow> string option" where
  "entry_id e = (case py_item e ''id'' of Inr (VStr i) \<Rightarrow> Some i | _ \<Rightarrow> None)"

definition entry_category :: "pyval \<Rightarrow> pyval option" where
  "entry_category e = (case py_item e ''category'' of Inr c \<Rightarrow> Some c | Inl _ \<Rightarrow> None)"

definition wf_entry :: "pyval \<Rightarrow> bool" where
  "wf_entry e \<longleftrightarrow> entry_date e \<noteq> None \<and> entry_id e \<noteq> None \<and> entry_category e \<noteq> None"

definition entry_key :: "pyval \<Rightarrow> string \<times> string" where
  "entry_key e =
     (case (entry_date e, entry_id e) of (Some d, Some i) \<Rightarrow> (d, i) | _ \<Rightarrow> ([], []))"

text \<open>
  The filters in the words of the specification: an entry matches when it satisfies
  every filter that is present: its date is at least \<^verbatim>\<open>from_date\<close>, at most \<^verbatim>\<open>to_date\<close>
  (both compared as strings), and its category is the string \<^verbatim>\<open>category\<close>.
\<close>

definition date_from :: "string \<Rightarrow> pyval \<Rightarrow> bool" where
  "date_from f e = (case entry_date e of Some d \<Rightarrow> f \<le> d | None \<Rightarrow> False)"

definition date_to :: "string \<Rightarrow> pyval \<Rightarrow> bool" where
  "date_to t e = (case entry_date e of Some d \<Rightarrow> d \<le> t | None \<Rightarrow> False)"

definition category_is :: "string \<Rightarrow> pyval \<Rightarrow> bool" where
  "category_is c e = (entry_category e = Some (VStr c))"

definition present :: "(string \<times> string) list option \<Rightarrow> string \<Rightarrow> string option" where
  "present filters k = (case filters of None \<Rightarrow> None | Some f \<Rightarrow> map_of f k)"

definition entry_matches :: "(string \<times> string) list option \<Rightarrow> pyval \<Rightarrow> bool" where
  "entry_matches filters e \<longleftrightarrow>
     (case present filters ''from_date'' of None \<Rightarrow> True | Some f \<Rightarrow> date_from f e) \<and>
     (case present filters ''to_date'' of None \<Rightarrow> True | Some t \<Rightarrow> date_to t e) \<and>
     (case present filters ''category'' of None \<Rightarrow> True | Some c \<Rightarrow> category_is c e)"

text \<open>Descending order of the key: a later date first, and on one date the greater id first.\<close>

definition key_desc :: "pyval \<Rightarrow> pyval \<Rightarrow> bool" where
  "key_desc a b \<longleftrightarrow>
     fst (entry_key b) < fst (entry_key a) \<or>
     (fst (entry_key b) = fst (entry_key a) \<and> snd (entry_key b) \<le> snd (entry_key a))"

text \<open>Entries for the examples.\<close>

definition entry :: "string \<Rightarrow> string \<Rightarrow> string \<Rightarrow> pyval" where
  "entry i d c = VDict [(''id'', VStr i), (''date'', VStr d), (''category'', VStr c)]"

definition jan01 :: pyval where
  "jan01 = entry ''e1'' ''2024-01-01'' ''Food''"

definition jan15 :: pyval where
  "jan15 = entry ''e2'' ''2024-01-15'' ''Bills''"

definition feb01 :: pyval where
  "feb01 = entry ''e3'' ''2024-02-01'' ''Food''"

definition january :: "(string \<times> string) list option" where
  "january = Some [(''from_date'', ''2024-01-01''), (''to_date'', ''2024-01-31'')]"

text \<open>An int of 4301 digits, and payloads that carry it or a NaN.\<close>

definition over_limit_int :: int where
  "over_limit_int = 10 ^ 4300"




section \<open>Properties of the validators\<close>

lemma py_float_12_5: "py_float (VStr ''12.5'') = Inr (Fin (25 / 2))"
proof -
  have a: "strip_underscores (CHR 0x00) (float_strip ''12.5'') = Some ''12.5''"
    by code_simp
  have b: "take_sign ''12.5'' = (False, ''12.5'')"
    by code_simp
  have c: "map to_lower ''12.5'' = ''12.5''"
    by code_simp
  have d: "parse_decimal ''12.5'' = Some (25 / 2)"
    by code_simp
  have e: "round_double (25 / 2) = Fin (25 / 2)"
    by (simp add: round_double_def double_overflow_def)
  have "parse_float ''12.5'' = Some (Fin (25 / 2))"
    unfolding parse_float_def b by (simp add: c d e)
  then show ?thesis
    by (simp add: a)
qed

text \<open>
  Claim C7. \<^verbatim>\<open>validate_amount_positive\<close> coerces its input with \<^verbatim>\<open>float\<close>. If the coercion
  fails it raises \<^verbatim>\<open>ValueError("amount must be a number")\<close>; if the coerced value is
  \<^verbatim>\<open><= 0\<close> it raises \<^verbatim>\<open>ValueError("amount must be positive")\<close>; otherwise it returns the
  coerced value. So \<open>0\<close> and \<open>-5\<close> are rejected and the string \<^verbatim>\<open>"12.5"\<close> gives \<open>12.5\<close>.
\<close>

theorem validate_amount_positive_spec:
  "(\<forall>e. py_float x = Inl e \<longrightarrow>
      validate_amount_positive x = Inl (ValueError ''amount must be a number''))
   \<and> (\<forall>v. py_float x = Inr v \<and> float_le_zero v \<longrightarrow>
      validate_amount_positive x = Inl (ValueError ''amount must be positive''))
   \<and> (\<forall>v. py_float x = Inr v \<and> \<not> float_le_zero v \<longrightarrow>
      validate_amount_positive x = Inr v)
   \<and> validate_amount_positive (VInt 0) = Inl (ValueError ''amount must be positive'')
   \<and> validate_amount_positive (VInt (- 5)) = Inl (ValueError ''amount must be positive'')
   \<and> validate_amount_positive (VStr ''12.5'') = Inr (Fin (25 / 2))"
proof -
  have "validate_amount_positive (VInt 0) = Inl (ValueError ''amount must be positive'')"
    by (simp add: validate_amount_positive_def double_overflow_def)
  moreover
  have "validate_amount_positive (VInt (- 5)) = Inl (ValueError ''amount must be positive'')"
    by (simp add: validate_amount_positive_def double_overflow_def)
  moreover
  have "validate_amount_positive (VStr ''12.5'') = Inr (Fin (25 / 2))"
    unfolding validate_amount_positive_def py_float_12_5 by simp
  ultimately show ?thesis
    by (simp add: validate_amount_positive_def)
qed

theorem validate_amount_positive_witness:
  "py_float (VStr ''abc'') = Inl (ValueError ''could not convert string to float'')
   \<and> validate_amount_positive (VStr ''abc'') = Inl (ValueError ''amount must be a number'')
   \<and> py_float (VBool False) = Inr (Fin 0) \<and> float_le_zero (Fin 0)
   \<and> validate_amount_positive (VBool False) = Inl (ValueError ''amount must be positive'')
   \<and> py_float (VFloat PosInf) = Inr PosInf \<and> \<not> float_le_zero PosInf
   \<and> validate_amount_positive (VFloat PosInf) = Inr PosInf"
proof -
  have a: "py_float (VStr ''abc'') = Inl (ValueError ''could not convert string to float'')"
    by code_simp
  have b: "py_float (VBool False) = Inr (Fin 0) \<and> float_le_zero (Fin 0)"
    by simp
  have c: "py_float (VFloat PosInf) = Inr PosInf \<and> \<not> float_le_zero PosInf"
    by simp
  from a validate_amount_positive_spec [of "VStr ''abc''"]
  have "validate_amount_positive (VStr ''abc'') = Inl (ValueError ''amount must be a number'')"
    by blast
  moreover from b validate_amount_positive_spec [of "VBool False"]
  have "validate_amount_positive (VBool False) = Inl (ValueError ''amount must be positive'')"
    by blast
  moreover from c validate_amount_positive_spec [of "VFloat PosInf"]
  have "validate_amount_positive (VFloat PosInf) = Inr PosInf"
    by blast
  ultimately show ?thesis
    using a b c by blast
qed

subsection \<open>Tags\<close>

lemma ten_le_limit: "(10::int) \<le> 10 ^ 4300"
  by (rule self_le_power) simp_all

lemma small_int_not_too_long: "\<bar>i\<bar> < 10 \<Longrightarrow> \<not> int_too_long i"
proof
  assume a: "\<bar>i\<bar> < 10" and b: "int_too_long i"
  from b have "10 ^ 4300 \<le> \<bar>i\<bar>"
    by (simp only: int_too_long_def)
  with ten_le_limit have "10 \<le> \<bar>i\<bar>"
    by (rule order_trans)
  with a show False
    by simp
qed

lemma over_limit_int_too_long: "int_too_long over_limit_int"
  unfolding int_too_long_def over_limit_int_def by (rule abs_ge_self)

lemma py_str_fails: "\<not> ints_ok v \<Longrightarrow> py_str R v = Inl digits_error"
  by (cases v) simp_all

lemma py_str_succeeds: "ints_ok v \<Longrightarrow> \<exists>s. py_str R v = Inr s"
  by (cases v) simp_all

lemma map_m_py_str_ok: "list_all ints_ok xs \<Longrightarrow> \<exists>ss. map_m (py_str R) xs = Inr ss"
proof (induction xs)
  case Nil
  then show ?case by simp
next
  case (Cons x xs)
  then obtain s ss where "py_str R x = Inr s" "map_m (py_str R) xs = Inr ss"
    using py_str_succeeds [of x R] by auto
  then show ?case
    by simp
qed

lemma tags_of_list_ok:
  "map_m (py_str R) xs = Inr ss \<Longrightarrow>
   tags_of_list R xs = Inr (filter (\<lambda>t. t \<noteq> []) (map py_strip ss))"
  by (induction xs arbitrary: ss) (auto split: sum.splits)

lemma tags_of_list_fails:
  "\<not> list_all ints_ok xs \<Longrightarrow> tags_of_list R xs = Inl digits_error"
proof (induction xs)
  case Nil
  then show ?case by simp
next
  case (Cons x xs)
  show ?case
  proof (cases "ints_ok x")
    case False
    then show ?thesis
      by (simp add: py_str_fails)
  next
    case True
    then obtain s where "py_str R x = Inr s"
      using py_str_succeeds by blast
    with True Cons show ?thesis
      by simp
  qed
qed

lemma map_m_py_str_strings: "map_m (py_str R) (map VStr ss) = Inr ss"
  by (induction ss) simp_all

lemma py_str_small_ints: "py_str R (VInt 5) = Inr ''5''" "py_str R (VInt (- 12)) = Inr ''-12''"
proof -
  have "int_str 5 = ''5''" "int_str (- 12) = ''-12''"
    by code_simp+
  moreover have "\<not> int_too_long 5"
    by (rule small_int_not_too_long) simp
  moreover have "\<not> int_too_long (- 12)"
  proof
    assume "int_too_long (- 12)"
    then have "10 ^ 4300 \<le> \<bar>- 12 :: int\<bar>"
      by (simp only: int_too_long_def)
    moreover have "(100::int) \<le> 10 ^ 4300"
    proof -
      have "(10::int) ^ 2 \<le> 10 ^ 4300"
        by (rule power_increasing) simp_all
      then show ?thesis
        by (simp only: power2_eq_square)
    qed
    ultimately have "(100::int) \<le> \<bar>- 12\<bar>"
      by (rule order_trans [rotated])
    then show False
      by simp
  qed
  ultimately show "py_str R (VInt 5) = Inr ''5''" "py_str R (VInt (- 12)) = Inr ''-12''"
    by simp_all
qed

lemma py_strip_examples:
  "py_strip ''5'' = ''5''" "py_strip ''None'' = ''None''" "py_strip ''True'' = ''True''"
  "py_strip '' a '' = ''a''" "py_strip ''  '' = []" "py_strip [] = []"
  by code_simp+

text \<open>
  Claim C9, as the code has it. On a list \<^verbatim>\<open>normalize_tags\<close> returns every element
  string-coerced and trimmed, the empty results dropped, in the order of the input; it
  raises \<^verbatim>\<open>ValueError\<close> exactly when \<^verbatim>\<open>str\<close> of an element raises, which is when the
  element is or holds an int of more than 4300 digits. On a string it splits at commas,
  trims the pieces and drops the empty ones. On any other value it returns the empty
  list: \<^verbatim>\<open>None\<close>, a bool, a number, a dict, and also a tuple, which is a sequence but not
  a \<^verbatim>\<open>list\<close>.
\<close>

theorem normalize_tags_spec:
  "normalize_tags R (VList (map VStr ss)) = Inr (filter (\<lambda>t. t \<noteq> []) (map py_strip ss))
   \<and> (\<forall>texts. map_m (py_str R) xs = Inr texts \<longrightarrow>
          normalize_tags R (VList xs) = Inr (filter (\<lambda>t. t \<noteq> []) (map py_strip texts)))
   \<and> (list_all ints_ok xs \<longrightarrow> (\<exists>texts. map_m (py_str R) xs = Inr texts))
   \<and> (\<not> list_all ints_ok xs \<longrightarrow> normalize_tags R (VList xs) = Inl digits_error)
   \<and> py_str R VNone = Inr ''None'' \<and> py_str R (VBool True) = Inr ''True''
   \<and> py_str R (VBool False) = Inr ''False'' \<and> py_str R (VInt 5) = Inr ''5''
   \<and> py_str R (VInt (- 12)) = Inr ''-12'' \<and> py_str R (VStr s) = Inr s
   \<and> normalize_tags R (VList [VInt 5, VNone, VBool True, VStr '' a '', VStr ''  ''])
        = Inr [''5'', ''None'', ''True'', ''a'']
   \<and> normalize_tags R (VStr s) =
        Inr (filter (\<lambda>t. t \<noteq> []) (map py_strip (split_on (CHR '','') s)))
   \<and> normalize_tags R VNone = Inr []
   \<and> normalize_tags R (VBool b) = Inr []
   \<and> normalize_tags R (VInt i) = Inr []
   \<and> normalize_tags R (VFloat f) = Inr []
   \<and> normalize_tags R (VDict d) = Inr []
   \<and> normalize_tags R (VTuple t) = Inr []
   \<and> normalize_tags R (VStr ''a, b ,,c'') = Inr [''a'', ''b'', ''c'']
   \<and> normalize_tags R (VList [VStr ''x'', VStr '' y '']) = Inr [''x'', ''y'']"
proof -
  have 1: "normalize_tags R (VList (map VStr ss)) = Inr (filter (\<lambda>t. t \<noteq> []) (map py_strip ss))"
    by (simp add: tags_of_list_ok [OF map_m_py_str_strings])
  have 2: "\<forall>texts. map_m (py_str R) xs = Inr texts \<longrightarrow>
          normalize_tags R (VList xs) = Inr (filter (\<lambda>t. t \<noteq> []) (map py_strip texts))"
    by (simp add: tags_of_list_ok)
  have 3: "list_all ints_ok xs \<longrightarrow> (\<exists>texts. map_m (py_str R) xs = Inr texts)"
    by (simp add: map_m_py_str_ok)
  have 4: "\<not> list_all ints_ok xs \<longrightarrow> normalize_tags R (VList xs) = Inl digits_error"
    by (simp add: tags_of_list_fails)
  have 5: "normalize_tags R (VList [VInt 5, VNone, VBool True, VStr '' a '', VStr ''  ''])
        = Inr [''5'', ''None'', ''True'', ''a'']"
    by (simp add: py_str_small_ints(1) py_strip_examples del: py_str.simps(4))
  have 6: "normalize_tags R (VStr s) =
        Inr (filter (\<lambda>t. t \<noteq> []) (map py_strip (split_on (CHR '','') s)))"
    by (simp add: filter_map comp_def)
  have 7: "normalize_tags R (VStr ''a, b ,,c'') = Inr [''a'', ''b'', ''c'']"
    by code_simp
  have 8: "normalize_tags R (VList [VStr ''x'', VStr '' y '']) = Inr [''x'', ''y'']"
    by code_simp
  from 1 2 3 4 5 6 7 8 show ?thesis
    using py_str_small_ints [of R] by simp
qed

theorem normalize_tags_spec_witness:
  "map_m (py_str repr_0) [VInt 5, VStr '' a ''] = Inr [''5'', '' a '']
   \<and> normalize_tags repr_0 (VList [VInt 5, VStr '' a '']) = Inr [''5'', ''a'']
   \<and> list_all ints_ok [VInt 5, VStr '' a '']
   \<and> \<not> list_all ints_ok [VStr ''x'', VList [VInt over_limit_int]]
   \<and> normalize_tags repr_0 (VList [VStr ''x'', VList [VInt over_limit_int]]) = Inl digits_error"
proof -
  have a: "map_m (py_str repr_0) [VInt 5, VStr '' a ''] = Inr [''5'', '' a '']"
    by (simp add: py_str_small_ints(1) del: py_str.simps(4))
  have b: "list_all ints_ok [VInt 5, VStr '' a '']"
    using small_int_not_too_long [of 5] by simp
  have c: "\<not> list_all ints_ok [VStr ''x'', VList [VInt over_limit_int]]"
    using over_limit_int_too_long by simp
  note inst = normalize_tags_spec [of repr_0 _ "[VInt 5, VStr '' a '']"]
  from inst a have "normalize_tags repr_0 (VList [VInt 5, VStr '' a ''])
      = Inr (filter (\<lambda>t. t \<noteq> []) (map py_strip [''5'', '' a '']))"
    by blast
  then have d: "normalize_tags repr_0 (VList [VInt 5, VStr '' a '']) = Inr [''5'', ''a'']"
    by (simp add: py_strip_examples)
  from normalize_tags_spec [of repr_0 _ "[VStr ''x'', VList [VInt over_limit_int]]"] c
  have e: "normalize_tags repr_0 (VList [VStr ''x'', VList [VInt over_limit_int]]) = Inl digits_error"
    by blast
  from a b c d e show ?thesis
    by blast
qed

text \<open>
  Claim C9 as stated fails twice. A tuple is a sequence, and \<^verbatim>\<open>normalize_tags\<close> returns the
  empty list for it instead of its trimmed elements. And \<^verbatim>\<open>normalize_tags\<close> can fail: on a
  list that holds an int of 4301 digits \<^verbatim>\<open>str(tag)\<close> raises \<^verbatim>\<open>ValueError\<close>.
\<close>

theorem normalize_tags_tuple_and_long_int:
  "normalize_tags repr_0 (VTuple [VStr ''x'', VStr '' y '']) = Inr []
   \<and> normalize_tags repr_0 (VList [VInt over_limit_int]) = Inl digits_error"
  by (simp add: over_limit_int_too_long)

section \<open>Decimal digits\<close>

lemma of_char_digit_char: "of_char (digit_char n) = 48 + n mod 10"
proof -
  have "(48 + n mod 10) mod 256 = 48 + n mod 10"
    by (rule mod_less) (use mod_less_divisor [of 10 n] in linarith)
  then show ?thesis
    by (simp add: digit_char_def)
qed

lemma is_digit_digit_char: "is_digit (digit_char n)"
  by (simp add: is_digit_def less_eq_char_def of_char_digit_char)

lemma digit_val_digit_char: "digit_val (digit_char n) = n mod 10"
  by (simp add: digit_val_def of_char_digit_char)

lemma digit_char_less: "digit_char a < digit_char b \<longleftrightarrow> a mod 10 < b mod 10"
  by (simp add: less_char_def of_char_digit_char)

lemma digit_char_eq: "digit_char a = digit_char b \<longleftrightarrow> a mod 10 = b mod 10"
proof
  assume "digit_char a = digit_char b"
  then have "of_char (digit_char a) = (of_char (digit_char b) :: nat)" by simp
  then show "a mod 10 = b mod 10" by (simp add: of_char_digit_char)
next
  assume "a mod 10 = b mod 10"
  then show "digit_char a = digit_char b" by (simp add: digit_char_def)
qed

lemma length_pad: "length (pad k n) = k"
  by (induction k arbitrary: n) auto

lemma all_digits_pad: "list_all is_digit (pad k n)"
  by (induction k arbitrary: n) (auto simp: is_digit_digit_char)

lemma nat_of_digits_snoc: "nat_of_digits (ds @ [c]) = 10 * nat_of_digits ds + digit_val c"
  by (simp add: nat_of_digits_def)

lemma nat_of_digits_pad: "nat_of_digits (pad k n) = n mod 10 ^ k"
proof (induction k arbitrary: n)
  case 0
  then show ?case by (simp add: nat_of_digits_def)
next
  case (Suc k)
  have "n mod (10 * 10 ^ k) = 10 * ((n div 10) mod 10 ^ k) + n mod 10"
    by (simp add: mod_mult2_eq add.commute)
  with Suc show ?case
    by (simp add: nat_of_digits_snoc digit_val_digit_char)
qed

lemma parse_digits_pad: "parse_digits k (pad k n @ rest) = Some (n mod 10 ^ k, rest)"
  by (simp add: parse_digits_def length_pad all_digits_pad nat_of_digits_pad)

lemma less_append_same_length:
  "length xs = length ys \<Longrightarrow> xs @ u < ys @ v \<longleftrightarrow> xs < ys \<or> (xs = ys \<and> u < v)"
  for xs ys u v :: "'a::linorder list"
  by (induction xs ys rule: list_induct2) auto

lemma pad_eq_iff: "a < 10 ^ k \<Longrightarrow> b < 10 ^ k \<Longrightarrow> pad k a = pad k b \<longleftrightarrow> a = b"
proof
  assume "a < 10 ^ k" "b < 10 ^ k" "pad k a = pad k b"
  then have "nat_of_digits (pad k a) = nat_of_digits (pad k b)" by simp
  with \<open>a < 10 ^ k\<close> \<open>b < 10 ^ k\<close> show "a = b" by (simp add: nat_of_digits_pad)
qed simp

lemma less_by_digits:
  "(a::nat) < b \<longleftrightarrow> a div 10 < b div 10 \<or> (a div 10 = b div 10 \<and> a mod 10 < b mod 10)"
proof -
  define qa ra qb rb where "qa = a div 10" and "ra = a mod 10" and "qb = b div 10" and "rb = b mod 10"
  have r: "ra < 10" "rb < 10"
    by (simp_all add: ra_def rb_def)
  have "10 * qa + ra < 10 * qb + rb \<longleftrightarrow> qa < qb \<or> (qa = qb \<and> ra < rb)"
    using r by arith
  then show ?thesis
    unfolding qa_def ra_def qb_def rb_def by simp
qed

lemma pad_less_iff: "a < 10 ^ k \<Longrightarrow> b < 10 ^ k \<Longrightarrow> pad k a < pad k b \<longleftrightarrow> a < b"
proof (induction k arbitrary: a b)
  case 0
  then show ?case by simp
next
  case (Suc k)
  have da: "a div 10 < 10 ^ k" and db: "b div 10 < 10 ^ k"
    using Suc.prems by (simp_all add: less_mult_imp_div_less mult.commute)
  have "pad (Suc k) a < pad (Suc k) b \<longleftrightarrow>
        pad k (a div 10) < pad k (b div 10) \<or>
        (pad k (a div 10) = pad k (b div 10) \<and> a mod 10 < b mod 10)"
    by (simp add: less_append_same_length length_pad digit_char_less)
  also have "\<dots> \<longleftrightarrow> a div 10 < b div 10 \<or> (a div 10 = b div 10 \<and> a mod 10 < b mod 10)"
    by (simp add: Suc.IH [OF da db] pad_eq_iff [OF da db])
  also have "\<dots> \<longleftrightarrow> a < b"
    by (rule less_by_digits [symmetric])
  finally show ?case .
qed

section \<open>Properties of the date check\<close>

lemma hd_append_all: "xs \<noteq> [] \<Longrightarrow> list_all P xs \<Longrightarrow> P (hd (xs @ r))"
  by (cases xs) simp_all

lemma hd_pad_not_W: "hd (pad (Suc k) n @ r) \<noteq> CHR ''W''"
proof -
  have "length (pad (Suc k) n) = Suc k"
    by (rule length_pad)
  then have "pad (Suc k) n \<noteq> []"
    by (metis length_0_conv nat.distinct(1))
  then have "is_digit (hd (pad (Suc k) n @ r))"
    by (rule hd_append_all) (rule all_digits_pad)
  then show ?thesis
    by (auto simp: is_digit_def less_eq_char_def)
qed

lemma parse_digits_pad_end: "parse_digits k (pad k n) = Some (n mod 10 ^ k, [])"
  using parse_digits_pad [of k n "[]"] by simp

text \<open>
  A string written as four digits, a dash, two digits, a dash, two digits is accepted
  exactly when the three numbers are a date of the calendar: year 1 to 9999, month 1 to
  12, and a day that the month has in that year.
\<close>

lemma validate_date_iso_extended:
  "validate_date_iso (VStr (pad 4 y @ ''-'' @ pad 2 m @ ''-'' @ pad 2 d)) =
     (if check_date_args (y mod 10000) (m mod 100) (d mod 100) then Inr ()
      else Inl (ValueError ''date must be in format YYYY-MM-DD''))"
proof -
  have W: "hd (pad 2 m @ CHR ''-'' # pad 2 d) \<noteq> CHR ''W''"
    using hd_pad_not_W [of 1 m "CHR ''-'' # pad 2 d"] by (simp add: numeral_2_eq_2)
  have ne: "pad 2 m @ CHR ''-'' # pad 2 d \<noteq> []"
    by simp
  have p4: "parse_digits 4 (pad 4 y @ CHR ''-'' # pad 2 m @ CHR ''-'' # pad 2 d)
              = Some (y mod 10000, CHR ''-'' # pad 2 m @ CHR ''-'' # pad 2 d)"
    using parse_digits_pad [of 4 y] by simp
  have p2: "parse_digits 2 (pad 2 m @ CHR ''-'' # pad 2 d) = Some (m mod 100, CHR ''-'' # pad 2 d)"
    using parse_digits_pad [of 2 m] by simp
  have p2': "parse_digits 2 (pad 2 d) = Some (d mod 100, [])"
    using parse_digits_pad_end [of 2 d] by simp
  have "parse_isoformat_date (pad 4 y @ CHR ''-'' # pad 2 m @ CHR ''-'' # pad 2 d) =
          (if check_date_args (y mod 10000) (m mod 100) (d mod 100)
           then Some (ymd_to_ord (y mod 10000) (m mod 100) (d mod 100)) else None)"
    unfolding parse_isoformat_date_def p4 by (simp add: W p2 p2')
  then show ?thesis
    by (simp add: validate_date_iso_def length_pad)
qed

lemma validate_today_iso:
  "check_date_args (year t) (month t) (day t) \<Longrightarrow> validate_date_iso (VStr (today_iso t)) = Inr ()"
proof -
  assume c: "check_date_args (year t) (month t) (day t)"
  then have "year t mod 10000 = year t" "month t mod 100 = month t" "day t mod 100 = day t"
    by (auto simp: check_date_args_def days_in_month_def split: if_splits)
  with c show ?thesis
    unfolding today_iso_def using validate_date_iso_extended [of "year t" "month t" "day t"]
    by simp
qed

lemma parse_20240115: "parse_isoformat_date ''20240115'' = Some (ymd_to_ord 2024 1 15)"
proof -
  have a: "parse_digits 4 ''20240115'' = Some (2024, ''0115'')"
    by (simp add: parse_digits_def is_digit_def less_eq_char_def nat_of_digits_def digit_val_def)
  have b: "parse_digits 2 ''0115'' = Some (1, ''15'')"
    by (simp add: parse_digits_def is_digit_def less_eq_char_def nat_of_digits_def digit_val_def)
  have c: "parse_digits 2 ''15'' = Some (15, [])"
    by (simp add: parse_digits_def is_digit_def less_eq_char_def nat_of_digits_def digit_val_def)
  have d: "check_date_args 2024 1 15"
    by (simp add: check_date_args_def days_in_month_def)
  show ?thesis
    unfolding parse_isoformat_date_def a using d by (simp add: b c)
qed

text \<open>
  Claim C8 says that every string not written as \<^verbatim>\<open>YYYY-MM-DD\<close> is rejected, and so does
  the docstring of \<^verbatim>\<open>validate_date_iso\<close> (and its error message). With
  \<^verbatim>\<open>date.fromisoformat\<close> of Python 3.11 and later the code accepts the basic format
  \<^verbatim>\<open>20240115\<close>, which has no dashes.
\<close>

theorem validate_date_iso_accepts_basic_format:
  "validate_date_iso (VStr ''20240115'') = Inr ()"
  by (simp add: validate_date_iso_def parse_20240115)

section \<open>Properties of the identifiers\<close>

lemma generate_expense_id_less:
  assumes a: "valid_reading a" and b: "valid_reading b"
  shows "generate_expense_id a < generate_expense_id b \<longleftrightarrow> dt_key a < dt_key b"
proof -
  have y: "pad 4 (year a) < pad 4 (year b) \<longleftrightarrow> year a < year b"
          "pad 4 (year a) = pad 4 (year b) \<longleftrightarrow> year a = year b"
    using a b pad_less_iff [of "year a" 4 "year b"] pad_eq_iff [of "year a" 4 "year b"]
    by (simp_all add: valid_reading_def)
  have m: "pad 2 (month a) < pad 2 (month b) \<longleftrightarrow> month a < month b"
          "pad 2 (month a) = pad 2 (month b) \<longleftrightarrow> month a = month b"
    using a b pad_less_iff [of "month a" 2 "month b"] pad_eq_iff [of "month a" 2 "month b"]
    by (simp_all add: valid_reading_def)
  have d: "pad 2 (day a) < pad 2 (day b) \<longleftrightarrow> day a < day b"
          "pad 2 (day a) = pad 2 (day b) \<longleftrightarrow> day a = day b"
    using a b pad_less_iff [of "day a" 2 "day b"] pad_eq_iff [of "day a" 2 "day b"]
    by (simp_all add: valid_reading_def)
  have H: "pad 2 (hour a) < pad 2 (hour b) \<longleftrightarrow> hour a < hour b"
          "pad 2 (hour a) = pad 2 (hour b) \<longleftrightarrow> hour a = hour b"
    using a b pad_less_iff [of "hour a" 2 "hour b"] pad_eq_iff [of "hour a" 2 "hour b"]
    by (simp_all add: valid_reading_def)
  have M: "pad 2 (minute a) < pad 2 (minute b) \<longleftrightarrow> minute a < minute b"
          "pad 2 (minute a) = pad 2 (minute b) \<longleftrightarrow> minute a = minute b"
    using a b pad_less_iff [of "minute a" 2 "minute b"] pad_eq_iff [of "minute a" 2 "minute b"]
    by (simp_all add: valid_reading_def)
  have S: "pad 2 (second a) < pad 2 (second b) \<longleftrightarrow> second a < second b"
          "pad 2 (second a) = pad 2 (second b) \<longleftrightarrow> second a = second b"
    using a b pad_less_iff [of "second a" 2 "second b"] pad_eq_iff [of "second a" 2 "second b"]
    by (simp_all add: valid_reading_def)
  have f: "pad 6 (microsecond a) < pad 6 (microsecond b) \<longleftrightarrow> microsecond a < microsecond b"
    using a b pad_less_iff [of "microsecond a" 6 "microsecond b"]
    by (simp add: valid_reading_def)
  have "generate_expense_id a < generate_expense_id b \<longleftrightarrow>
        pad 4 (year a) @ pad 2 (month a) @ pad 2 (day a) @ CHR ''_'' #
          pad 2 (hour a) @ pad 2 (minute a) @ pad 2 (second a) @ pad 6 (microsecond a)
        < pad 4 (year b) @ pad 2 (month b) @ pad 2 (day b) @ CHR ''_'' #
          pad 2 (hour b) @ pad 2 (minute b) @ pad 2 (second b) @ pad 6 (microsecond b)"
    by (simp add: generate_expense_id_def)
  also have "\<dots> \<longleftrightarrow> dt_key a < dt_key b"
    unfolding dt_key_def
    by (simp only: less_append_same_length length_pad y m d H M S f Cons_less_Cons
          less_prod_simp simp_thms) auto
  finally show ?thesis .
qed

lemma generate_expense_id_shape:
  "generate_expense_id now = ''exp_'' @ drop 4 (generate_expense_id now)
   \<and> length (generate_expense_id now) = 25"
  by (simp add: generate_expense_id_def length_pad)

lemma add_expense_returns_generated_id:
  "add_expense R fs u payload today now = (Inr i, fs') \<Longrightarrow> i = generate_expense_id now"
  by (auto simp: add_expense_def Let_def split: sum.splits prod.splits)

lemma returned_ids_from_calls:
  "set (returned_ids (fst (add_expenses R fs u calls))) \<subseteq> generate_expense_id ` now_of ` set calls"
proof (induction calls arbitrary: fs)
  case Nil
  then show ?case by simp
next
  case (Cons call calls)
  obtain payload today now where call: "call = (payload, today, now)"
    by (cases call) auto
  obtain r fs1 where r: "add_expense R fs u payload today now = (r, fs1)"
    by (cases "add_expense R fs u payload today now") auto
  obtain rs fs2 where rs: "add_expenses R fs1 u calls = (rs, fs2)"
    by (cases "add_expenses R fs1 u calls") auto
  have IH: "set (returned_ids rs) \<subseteq> generate_expense_id ` now_of ` set calls"
    using Cons.IH [of fs1] rs by simp
  show ?case
  proof (cases r)
    case (Inl e)
    with IH show ?thesis
      by (auto simp: call r rs)
  next
    case (Inr i)
    with r have "i = generate_expense_id now"
      by (simp add: add_expense_returns_generated_id)
    with IH Inr show ?thesis
      by (auto simp: call r rs now_of_def)
  qed
qed

lemma returned_ids_increasing:
  assumes "\<forall>c \<in> set calls. valid_reading (now_of c)"
    and "sorted_wrt (\<lambda>a b. dt_key a < dt_key b) (map now_of calls)"
  shows "sorted_wrt (<) (returned_ids (fst (add_expenses R fs u calls)))"
  using assms
proof (induction calls arbitrary: fs)
  case Nil
  then show ?case by simp
next
  case (Cons call calls)
  obtain payload today now where call: "call = (payload, today, now)"
    by (cases call) auto
  obtain r fs1 where r: "add_expense R fs u payload today now = (r, fs1)"
    by (cases "add_expense R fs u payload today now") auto
  obtain rs fs2 where rs: "add_expenses R fs1 u calls = (rs, fs2)"
    by (cases "add_expenses R fs1 u calls") auto
  have IH: "sorted_wrt (<) (returned_ids rs)"
    using Cons.IH [of fs1] Cons.prems rs by simp
  show ?case
  proof (cases r)
    case (Inl e)
    with IH show ?thesis
      by (simp add: call r rs)
  next
    case (Inr i)
    with r have i: "i = generate_expense_id now"
      by (simp add: add_expense_returns_generated_id)
    have "i < j" if "j \<in> set (returned_ids rs)" for j
    proof -
      from that returned_ids_from_calls [of R fs1 u calls] rs
      obtain c where c: "c \<in> set calls" "j = generate_expense_id (now_of c)"
        by auto
      from Cons.prems c call have "dt_key now < dt_key (now_of c)"
        by (auto simp: now_of_def)
      moreover from Cons.prems c call have "valid_reading now" "valid_reading (now_of c)"
        by (auto simp: now_of_def)
      ultimately show ?thesis
        by (simp add: i c generate_expense_id_less)
    qed
    with IH Inr show ?thesis
      by (simp add: call r rs)
  qed
qed

lemma strictly_sorted_distinct:
  "sorted_wrt (<) xs \<Longrightarrow> distinct xs"
  for xs :: "'a::order list"
  by (induction xs) auto

section \<open>Evaluating the store\<close>

lemma json_dump_ok:
  "ints_ok v \<Longrightarrow> json_dump fs p r v = (Inr (), fs(p := File r True (Json (json_norm v))))"
  by (simp add: json_dump_def json_dump_error_def)

lemma json_dump_fails:
  "\<not> ints_ok v \<Longrightarrow> json_dump fs p r v = (Inl digits_error, fs(p := File r True Malformed))"
  by (simp add: json_dump_def json_dump_error_def)

lemma write_json_file:
  "fs p = File r True c \<Longrightarrow> write_json fs p v = json_dump fs p r v"
  by (simp add: write_json_def)

lemma snd_in_snds: "snd x \<in> Basic_BNFs.snds x"
  by (cases x) (simp add: snds.intros)

lemma ints_ok_json_norm: "ints_ok (json_norm v) = ints_ok v"
  by (induction v rule: json_norm.induct) (simp_all add: list_all_iff snd_in_snds)

lemma json_norm_idem: "json_norm (json_norm v) = json_norm v"
  by (induction v rule: json_norm.induct) (auto simp add: snd_in_snds)

lemma load_expenses_missing:
  "fs (expenses_path u) = Absent True \<Longrightarrow>
   load_expenses fs u =
     (Inr (VList []),
      fs(expenses_path u := File True True (Json (VDict [(''expenses'', VList [])]))))"
  by (simp add: load_expenses_def path_exists_def write_json_def json_dump_ok)

lemma load_expenses_no_dir:
  "fs (expenses_path u) = Absent False \<Longrightarrow> load_expenses fs u = (Inl OSError, fs)"
  by (simp add: load_expenses_def path_exists_def write_json_def)

lemma load_expenses_document:
  "fs (expenses_path u) = File True w (Json (VDict kvs)) \<Longrightarrow>
   load_expenses fs u = (Inr (dict_get kvs ''expenses'' (VList [])), fs)"
  by (simp add: load_expenses_def path_exists_def read_json_def)

lemma add_expense_ok:
  assumes "validate_date_iso (resolve_date payload today) = Inr ()"
    and "validate_amount_positive (dict_get payload ''amount'' VNone) = Inr a"
    and "map_of payload ''category'' = Some c"
    and "validate_required_text R c ''category'' = Inr ()"
    and "normalize_tags R (dict_get payload ''tags'' VNone) = Inr tags"
    and "load_expenses fs u = (Inr (VList xs), fs1)"
    and "fs1 (expenses_path u) = File rd True doc"
    and "ints_ok (VList (xs @ [new_expense (generate_expense_id now) (resolve_date payload today) a c
          (dict_get payload ''description'' (VStr []))
          (dict_get payload ''payment_method'' (VStr [])) tags]))"
  shows "add_expense R fs u payload today now =
     (Inr (generate_expense_id now),
      fs1(expenses_path u := File rd True (Json (json_norm (VDict [(''expenses'',
        VList (xs @ [new_expense (generate_expense_id now) (resolve_date payload today) a c
          (dict_get payload ''description'' (VStr []))
          (dict_get payload ''payment_method'' (VStr [])) tags]))])))))"
proof -
  let ?e = "new_expense (generate_expense_id now) (resolve_date payload today) a c
          (dict_get payload ''description'' (VStr []))
          (dict_get payload ''payment_method'' (VStr [])) tags"
  from assms(8) have "ints_ok (VDict [(''expenses'', VList (xs @ [?e]))])"
    by simp
  then have "save_expenses fs1 u (VList (xs @ [?e])) =
      (Inr (), fs1(expenses_path u := File rd True
         (Json (json_norm (VDict [(''expenses'', VList (xs @ [?e]))])))))"
    using assms(7) by (simp add: save_expenses_def write_json_def json_dump_ok)
  with assms(1-6) show ?thesis
    by (simp add: add_expense_def Let_def dict_get_def dict_item_def)
qed

lemma py_strip_Food: "py_strip ''Food'' = ''Food''"
  by code_simp

lemma payload_food_valid:
  "validate_date_iso (resolve_date payload_food clock_0) = Inr ()"
  "validate_amount_positive (dict_get payload_food ''amount'' VNone) = Inr (Fin 10)"
  "map_of payload_food ''category'' = Some (VStr ''Food'')"
  "validate_required_text R (VStr ''Food'') ''category'' = Inr ()"
proof -
  have "check_date_args (year clock_0) (month clock_0) (day clock_0)"
    by (simp add: clock_0_def check_date_args_def days_in_month_def)
  then show "validate_date_iso (resolve_date payload_food clock_0) = Inr ()"
    by (simp add: resolve_date_def payload_food_def dict_get_def validate_today_iso)
  show "validate_amount_positive (dict_get payload_food ''amount'' VNone) = Inr (Fin 10)"
    by (simp add: payload_food_def dict_get_def validate_amount_positive_def double_overflow_def)
  show "map_of payload_food ''category'' = Some (VStr ''Food'')"
    by (simp add: payload_food_def)
  show "validate_required_text R (VStr ''Food'') ''category'' = Inr ()"
    by (simp add: validate_required_text_def py_strip_Food)
qed

lemma resolve_date_payload_food: "resolve_date payload_food clock_0 = VStr ''2025-09-07''"
proof -
  have "today_iso clock_0 = ''2025-09-07''"
    by code_simp
  then show ?thesis
    by (simp add: resolve_date_def payload_food_def dict_get_def)
qed

lemma generate_expense_id_clock_0: "generate_expense_id clock_0 = ''exp_20250907_153045000123''"
  by code_simp

lemma generate_expense_id_clock_1: "generate_expense_id clock_1 = ''exp_20250907_153045000124''"
  by code_simp

lemma valid_reading_clocks: "valid_reading clock_0" "valid_reading clock_1"
  by (simp_all add: valid_reading_def clock_0_def clock_1_def)

lemma clock_0_before_clock_1: "dt_key clock_0 < dt_key clock_1"
  by (simp add: dt_key_def clock_0_def clock_1_def)

text \<open>Two calls in a row on a fresh file system, with the readings \<open>now\<close> and \<open>now'\<close>.\<close>

lemma normalize_tags_payload_food:
  "normalize_tags R (dict_get payload_food ''tags'' VNone) = Inr []"
  by (simp add: payload_food_def dict_get_def)

lemma two_calls_on_fresh_fs:
  "fst (add_expenses R fresh_fs u
          [(payload_food, clock_0, now), (payload_food, clock_0, now')]) =
     [Inr (generate_expense_id now), Inr (generate_expense_id now')]"
proof -
  let ?p = "expenses_path u"
  let ?e = "\<lambda>n. new_expense (generate_expense_id n) (resolve_date payload_food clock_0) (Fin 10)
              (VStr ''Food'') (dict_get payload_food ''description'' (VStr []))
              (dict_get payload_food ''payment_method'' (VStr [])) []"
  let ?fs0 = "fresh_fs(?p := File True True (Json (VDict [(''expenses'', VList [])])))"
  let ?fs1 = "?fs0(?p := File True True (Json (VDict [(''expenses'', VList [?e now])])))"
  have n: "json_norm (?e m) = ?e m" "ints_ok (?e m)" for m
    unfolding resolve_date_payload_food
    by (simp_all add: new_expense_def payload_food_def dict_get_def)
  have l0: "load_expenses fresh_fs u = (Inr (VList []), ?fs0)"
    by (rule load_expenses_missing) (simp add: fresh_fs_def)
  have s0: "?fs0 ?p = File True True (Json (VDict [(''expenses'', VList [])]))"
    by simp
  have i0: "ints_ok (VList ([] @ [?e now]))"
    by (simp add: n)
  have "add_expense R fresh_fs u payload_food clock_0 now =
     (Inr (generate_expense_id now),
      ?fs0(?p := File True True (Json (json_norm (VDict [(''expenses'', VList ([] @ [?e now]))])))))"
    by (rule add_expense_ok [where fs = fresh_fs and ?fs1.0 = "?fs0" and u = u,
          OF payload_food_valid(1,2,3,4) normalize_tags_payload_food l0 s0 i0])
  then have c1: "add_expense R fresh_fs u payload_food clock_0 now = (Inr (generate_expense_id now), ?fs1)"
    by (simp add: n)
  have s1: "?fs1 ?p = File True True (Json (VDict [(''expenses'', VList [?e now])]))"
    by simp
  have l1: "load_expenses ?fs1 u = (Inr (VList [?e now]), ?fs1)"
    using load_expenses_document [where fs = "?fs1" and u = u, OF s1] by (simp add: dict_get_def)
  have i1: "ints_ok (VList ([?e now] @ [?e now']))"
    by (simp add: n)
  have c2: "fst (add_expense R ?fs1 u payload_food clock_0 now') = Inr (generate_expense_id now')"
    using add_expense_ok [where fs = "?fs1" and ?fs1.0 = "?fs1" and u = u and now = now',
        OF payload_food_valid(1,2,3,4) normalize_tags_payload_food l1 s1 i1] by simp
  then obtain fs2 where
    "add_expense R ?fs1 u payload_food clock_0 now' = (Inr (generate_expense_id now'), fs2)"
    by (cases "add_expense R ?fs1 u payload_food clock_0 now'") auto
  then show ?thesis
    by (simp add: c1)
qed

text \<open>
  Claim C2, as the code has it. The id is \<^verbatim>\<open>"exp_"\<close> followed by the reading of
  \<^verbatim>\<open>datetime.now()\<close> printed as \<^verbatim>\<open>%Y%m%d_%H%M%S%f\<close>, and nothing else. For a run of
  sequential \<^verbatim>\<open>add_expense\<close> calls whose readings are valid (a year of four digits) and
  strictly increasing from call to call, the ids returned are pairwise distinct, their
  lexical order is the order of the calls, and each is the prefix \<^verbatim>\<open>exp_\<close> followed by the
  21 characters of its call's reading.
\<close>

theorem add_expenses_ids_increasing:
  assumes "\<forall>c \<in> set calls. valid_reading (now_of c)"
    and "sorted_wrt (\<lambda>a b. dt_key a < dt_key b) (map now_of calls)"
  shows "distinct (returned_ids (fst (add_expenses R fs u calls)))
    \<and> sorted_wrt (<) (returned_ids (fst (add_expenses R fs u calls)))
    \<and> (\<forall>i \<in> set (returned_ids (fst (add_expenses R fs u calls))).
          \<exists>c \<in> set calls. i = generate_expense_id (now_of c)
            \<and> i = ''exp_'' @ drop 4 i \<and> length i = 25)"
proof -
  let ?ids = "returned_ids (fst (add_expenses R fs u calls))"
  have s: "sorted_wrt (<) ?ids"
    using assms by (rule returned_ids_increasing)
  then have d: "distinct ?ids"
    by (rule strictly_sorted_distinct)
  have "\<exists>c \<in> set calls. i = generate_expense_id (now_of c) \<and> i = ''exp_'' @ drop 4 i \<and> length i = 25"
    if "i \<in> set ?ids" for i
  proof -
    from that returned_ids_from_calls [of R fs u calls]
    obtain c where c: "c \<in> set calls" "i = generate_expense_id (now_of c)"
      by auto
    with generate_expense_id_shape [of "now_of c"] show ?thesis
      by auto
  qed
  with s d show ?thesis
    by blast
qed

theorem add_expenses_ids_increasing_witness:
  "valid_reading clock_0 \<and> valid_reading clock_1 \<and> dt_key clock_0 < dt_key clock_1
   \<and> returned_ids (fst (add_expenses repr_0 fresh_fs ''alice''
        [(payload_food, clock_0, clock_0), (payload_food, clock_0, clock_1)]))
      = [''exp_20250907_153045000123'', ''exp_20250907_153045000124'']
   \<and> distinct (returned_ids (fst (add_expenses repr_0 fresh_fs ''alice''
        [(payload_food, clock_0, clock_0), (payload_food, clock_0, clock_1)])))
   \<and> sorted_wrt (<) (returned_ids (fst (add_expenses repr_0 fresh_fs ''alice''
        [(payload_food, clock_0, clock_0), (payload_food, clock_0, clock_1)])))"
proof -
  let ?calls = "[(payload_food, clock_0, clock_0), (payload_food, clock_0, clock_1)]"
  have v: "\<forall>c \<in> set ?calls. valid_reading (now_of c)"
    by (simp add: now_of_def valid_reading_clocks)
  have o: "sorted_wrt (\<lambda>a b. dt_key a < dt_key b) (map now_of ?calls)"
    by (simp add: now_of_def clock_0_before_clock_1)
  have r: "returned_ids (fst (add_expenses repr_0 fresh_fs ''alice'' ?calls))
             = [''exp_20250907_153045000123'', ''exp_20250907_153045000124'']"
    unfolding two_calls_on_fresh_fs
    by (simp add: generate_expense_id_clock_0 generate_expense_id_clock_1)
  from add_expenses_ids_increasing [OF v o, of repr_0 fresh_fs "''alice''"] r
  show ?thesis
    using valid_reading_clocks clock_0_before_clock_1 by blast
qed

text \<open>
  Claim C2 as stated fails: nothing but the clock goes into the id, so two sequential
  calls that read the same clock value both succeed and return the same id.
\<close>

theorem add_expense_same_reading_same_id:
  "fst (add_expenses repr_0 fresh_fs ''alice''
          [(payload_food, clock_0, clock_0), (payload_food, clock_0, clock_0)])
     = [Inr ''exp_20250907_153045000123'', Inr ''exp_20250907_153045000123'']
   \<and> \<not> distinct (returned_ids (fst (add_expenses repr_0 fresh_fs ''alice''
          [(payload_food, clock_0, clock_0), (payload_food, clock_0, clock_0)])))"
  unfolding two_calls_on_fresh_fs by (simp add: generate_expense_id_clock_0)

section \<open>Properties of loading\<close>

lemma load_expenses_not_object:
  "fs (expenses_path u) = File True w (Json v) \<Longrightarrow> \<forall>kvs. v \<noteq> VDict kvs \<Longrightarrow>
   load_expenses fs u = (Inl AttributeError, fs)"
  by (cases v) (simp_all add: load_expenses_def path_exists_def read_json_def)

text \<open>
  Claim C6, as the code has it. When the document is missing and a file can be created
  at its path, \<^verbatim>\<open>load_expenses\<close> writes \<^verbatim>\<open>{"expenses": []}\<close> there and returns the empty
  list; when no file can be created there (the user's directory is missing) it fails
  with \<^verbatim>\<open>OSError\<close> and changes nothing. When something is at the path, nothing is
  changed, and: a directory or an unreadable file gives \<^verbatim>\<open>OSError\<close>; text that is not
  JSON gives \<^verbatim>\<open>JSONDecodeError\<close> (a \<^verbatim>\<open>ValueError\<close>); a JSON value that is not an object
  gives \<^verbatim>\<open>AttributeError\<close>; an object without the key \<^verbatim>\<open>expenses\<close> gives the empty list;
  an object whose \<^verbatim>\<open>expenses\<close> is a list gives that list.
\<close>

theorem load_expenses_cases:
  "(fs (expenses_path u) = Absent True \<longrightarrow>
      load_expenses fs u =
        (Inr (VList []),
         fs(expenses_path u := File True True (Json (VDict [(''expenses'', VList [])])))))
   \<and> (fs (expenses_path u) = Absent False \<longrightarrow> load_expenses fs u = (Inl OSError, fs))
   \<and> (fs (expenses_path u) = Dir \<longrightarrow> load_expenses fs u = (Inl OSError, fs))
   \<and> (fs (expenses_path u) = File False w c \<longrightarrow> load_expenses fs u = (Inl OSError, fs))
   \<and> (fs (expenses_path u) = File True w Malformed \<longrightarrow>
        load_expenses fs u = (Inl JSONDecodeError, fs))
   \<and> (fs (expenses_path u) = File True w (Json v) \<and> (\<forall>kvs. v \<noteq> VDict kvs) \<longrightarrow>
        load_expenses fs u = (Inl AttributeError, fs))
   \<and> (fs (expenses_path u) = File True w (Json (VDict kvs)) \<and> map_of kvs ''expenses'' = None \<longrightarrow>
        load_expenses fs u = (Inr (VList []), fs))
   \<and> (fs (expenses_path u) = File True w (Json (VDict kvs)) \<and>
        map_of kvs ''expenses'' = Some (VList xs) \<longrightarrow>
        load_expenses fs u = (Inr (VList xs), fs))"
proof -
  have "fs (expenses_path u) = Dir \<longrightarrow> load_expenses fs u = (Inl OSError, fs)"
    by (simp add: load_expenses_def path_exists_def read_json_def)
  moreover
  have "fs (expenses_path u) = File False w c \<longrightarrow> load_expenses fs u = (Inl OSError, fs)"
    by (simp add: load_expenses_def path_exists_def read_json_def)
  moreover
  have "fs (expenses_path u) = File True w Malformed \<longrightarrow>
        load_expenses fs u = (Inl JSONDecodeError, fs)"
    by (simp add: load_expenses_def path_exists_def read_json_def)
  moreover
  have "fs (expenses_path u) = File True w (Json (VDict kvs)) \<and> map_of kvs ''expenses'' = None \<longrightarrow>
        load_expenses fs u = (Inr (VList []), fs)"
    by (simp add: load_expenses_document dict_get_def)
  moreover
  have "fs (expenses_path u) = File True w (Json (VDict kvs)) \<and>
        map_of kvs ''expenses'' = Some (VList xs) \<longrightarrow>
        load_expenses fs u = (Inr (VList xs), fs)"
    by (simp add: load_expenses_document dict_get_def)
  ultimately show ?thesis
    using load_expenses_missing [of fs u] load_expenses_no_dir [of fs u]
      load_expenses_not_object [of fs u w v]
    by blast
qed

theorem load_expenses_cases_witness:
  "fresh_fs (expenses_path ''alice'') = Absent True
   \<and> load_expenses fresh_fs ''alice'' =
       (Inr (VList []),
        fresh_fs(expenses_path ''alice'' := File True True (Json (VDict [(''expenses'', VList [])]))))
   \<and> store_fs [VInt 1] (expenses_path ''alice'') =
        File True True (Json (VDict [(''expenses'', VList [VInt 1])]))
   \<and> map_of [(''expenses'', VList [VInt 1])] ''expenses'' = Some (VList [VInt 1])
   \<and> load_expenses (store_fs [VInt 1]) ''alice'' = (Inr (VList [VInt 1]), store_fs [VInt 1])"
proof -
  have a: "fresh_fs (expenses_path ''alice'') = Absent True"
    by (simp add: fresh_fs_def)
  have b: "store_fs [VInt 1] (expenses_path ''alice'') =
             File True True (Json (VDict [(''expenses'', VList [VInt 1])]))"
    by (simp add: store_fs_def)
  have c: "map_of [(''expenses'', VList [VInt 1])] ''expenses'' = Some (VList [VInt 1])"
    by simp
  from a load_expenses_cases [of fresh_fs "''alice''"]
  have "load_expenses fresh_fs ''alice'' =
       (Inr (VList []),
        fresh_fs(expenses_path ''alice'' := File True True (Json (VDict [(''expenses'', VList [])]))))"
    by blast
  moreover from b c
    load_expenses_cases [of "store_fs [VInt 1]" "''alice''" True _ _ "[(''expenses'', VList [VInt 1])]" "[VInt 1]"]
  have "load_expenses (store_fs [VInt 1]) ''alice'' = (Inr (VList [VInt 1]), store_fs [VInt 1])"
    by blast
  ultimately show ?thesis
    using a b c by blast
qed

text \<open>
  Claim C6 as stated fails twice. With no document and no directory to create it in,
  \<^verbatim>\<open>load_expenses\<close> fails (\<^verbatim>\<open>open(path, "w")\<close> raises). And a document that is not JSON
  makes it fail with \<^verbatim>\<open>JSONDecodeError\<close>, which is a \<^verbatim>\<open>ValueError\<close> and not an
  \<^verbatim>\<open>OSError\<close>/\<^verbatim>\<open>IOError\<close>.
\<close>

theorem load_expenses_missing_document_fails:
  "\<not> path_exists no_dir_fs (expenses_path ''alice'')
   \<and> load_expenses no_dir_fs ''alice'' = (Inl OSError, no_dir_fs)
   \<and> load_expenses corrupt_fs ''alice'' = (Inl JSONDecodeError, corrupt_fs)"
  by (simp add: load_expenses_def path_exists_def write_json_def read_json_def no_dir_fs_def
        corrupt_fs_def)

section \<open>Properties of adding\<close>

lemma validate_date_iso_error:
  "validate_date_iso d = Inl e \<Longrightarrow> e = ValueError ''date must be in format YYYY-MM-DD''"
  by (auto simp: validate_date_iso_def split: sum.splits)

lemma validate_date_iso_string: "validate_date_iso d = Inr () \<Longrightarrow> \<exists>s. d = VStr s"
  by (cases d) (simp_all add: validate_date_iso_def)

lemma validate_amount_positive_error:
  "validate_amount_positive x = Inl e \<Longrightarrow>
   e = ValueError ''amount must be a number'' \<or> e = ValueError ''amount must be positive''"
  by (auto simp: validate_amount_positive_def split: sum.splits if_splits)

lemma py_str_error: "py_str R v = Inl e \<Longrightarrow> e = digits_error"
  by (cases v) (simp_all split: if_splits)

lemma validate_required_text_error:
  "validate_required_text R s field = Inl e \<Longrightarrow>
   e = ValueError (field @ '' is required'') \<or> e = digits_error"
  by (auto simp: validate_required_text_def split: if_splits sum.splits dest: py_str_error)

lemma tags_of_list_error: "tags_of_list R xs = Inl e \<Longrightarrow> e = digits_error"
  by (induction xs) (auto split: sum.splits if_splits dest: py_str_error)

lemma normalize_tags_error: "normalize_tags R v = Inl e \<Longrightarrow> e = digits_error"
  by (cases v) (simp_all add: tags_of_list_error)

lemma validated_category_present:
  "validate_required_text R (dict_get payload ''category'' VNone) field = Inr () \<Longrightarrow>
   \<exists>c. map_of payload ''category'' = Some c \<and> dict_get payload ''category'' VNone = c"
  by (cases "map_of payload ''category''") (simp_all add: validate_required_text_def dict_get_def)

lemma load_expenses_error:
  "load_expenses fs u = (Inl e, fs') \<Longrightarrow>
   fs' = fs \<and> (e = OSError \<or> e = JSONDecodeError \<or> e = AttributeError)"
proof -
  assume a: "load_expenses fs u = (Inl e, fs')"
  show ?thesis
  proof (cases "fs (expenses_path u)")
    case (Absent c)
    with a show ?thesis
      by (cases c) (auto simp: load_expenses_def path_exists_def write_json_def json_dump_ok)
  next
    case Dir
    with a show ?thesis
      by (auto simp: load_expenses_def path_exists_def read_json_def)
  next
    case (File rd w c)
    show ?thesis
    proof (cases c)
      case Malformed
      with a File show ?thesis
        by (auto simp: load_expenses_def path_exists_def read_json_def split: if_splits)
    next
      case (Json v)
      with a File show ?thesis
        by (cases v) (auto simp: load_expenses_def path_exists_def read_json_def split: if_splits)
    qed
  qed
qed

lemma load_expenses_result:
  "load_expenses fs u = (Inr v, fs') \<Longrightarrow>
   (\<exists>w c. fs (expenses_path u) = File True w c \<and> fs' = fs)
   \<or> (fs (expenses_path u) = Absent True \<and> v = VList [] \<and>
       fs' = fs(expenses_path u := File True True (Json (VDict [(''expenses'', VList [])]))))"
proof -
  assume a: "load_expenses fs u = (Inr v, fs')"
  show ?thesis
  proof (cases "fs (expenses_path u)")
    case (Absent c)
    with a show ?thesis
      by (cases c) (auto simp: load_expenses_def path_exists_def write_json_def json_dump_ok)
  next
    case Dir
    with a show ?thesis
      by (auto simp: load_expenses_def path_exists_def read_json_def)
  next
    case (File rd w c)
    with a show ?thesis
      by (auto simp: load_expenses_def path_exists_def read_json_def split: if_splits content.splits)
  qed
qed

text \<open>
  After a successful load, saving ends in one of three ways. It fails at
  \<^verbatim>\<open>open(path, "w")\<close> and changes nothing. Or the file is opened, which empties it, and
  \<^verbatim>\<open>json.dump\<close> writes the whole document. Or the file is opened and \<^verbatim>\<open>json.dump\<close> raises
  on the way: then the file is left with text that is not JSON. When the load itself
  created the document, the open cannot fail.
\<close>

lemma save_after_load:
  assumes "load_expenses fs u = (Inr v, fs1)"
  shows "(save_expenses fs1 u items = (Inl OSError, fs1) \<and> fs1 = fs)
     \<or> (ints_ok items \<and> save_expenses fs1 u items =
           (Inr (), fs(expenses_path u :=
              File True True (Json (json_norm (VDict [(''expenses'', items)]))))))
     \<or> (\<not> ints_ok items \<and> save_expenses fs1 u items =
           (Inl digits_error, fs(expenses_path u := File True True Malformed)))"
proof -
  have d: "json_dump g (expenses_path u) True (VDict [(''expenses'', items)]) =
      (if ints_ok items
       then (Inr (), g(expenses_path u :=
               File True True (Json (json_norm (VDict [(''expenses'', items)])))))
       else (Inl digits_error, g(expenses_path u := File True True Malformed)))" for g
    by (simp add: json_dump_ok json_dump_fails)
  from load_expenses_result [OF assms] show ?thesis
  proof
    assume "\<exists>w c. fs (expenses_path u) = File True w c \<and> fs1 = fs"
    then obtain w c where f: "fs (expenses_path u) = File True w c" and e: "fs1 = fs"
      by blast
    show ?thesis
    proof (cases w)
      case True
      with f e have "save_expenses fs1 u items =
          json_dump fs (expenses_path u) True (VDict [(''expenses'', items)])"
        by (simp add: save_expenses_def write_json_def)
      then show ?thesis
        unfolding d by (cases "ints_ok items") simp_all
    next
      case False
      with f e have "save_expenses fs1 u items = (Inl OSError, fs1) \<and> fs1 = fs"
        by (simp add: save_expenses_def write_json_def)
      then show ?thesis
        by (rule disjI1)
    qed
  next
    assume "fs (expenses_path u) = Absent True \<and> v = VList [] \<and>
       fs1 = fs(expenses_path u := File True True (Json (VDict [(''expenses'', VList [])])))"
    then have "save_expenses fs1 u items =
        json_dump fs1 (expenses_path u) True (VDict [(''expenses'', items)])"
      and "fs1 = fs(expenses_path u := File True True (Json (VDict [(''expenses'', VList [])])))"
      by (simp_all add: save_expenses_def write_json_def)
    then show ?thesis
      unfolding d by (cases "ints_ok items") simp_all
  qed
qed

lemma add_expense_date_fails:
  "validate_date_iso (resolve_date payload today) = Inl e \<Longrightarrow>
   add_expense R fs u payload today now = (Inl e, fs)"
  by (simp add: add_expense_def)

lemma add_expense_amount_fails:
  "validate_date_iso (resolve_date payload today) = Inr () \<Longrightarrow>
   validate_amount_positive (dict_get payload ''amount'' VNone) = Inl e \<Longrightarrow>
   add_expense R fs u payload today now = (Inl e, fs)"
  by (simp add: add_expense_def)

lemma add_expense_category_fails:
  "validate_date_iso (resolve_date payload today) = Inr () \<Longrightarrow>
   validate_amount_positive (dict_get payload ''amount'' VNone) = Inr a \<Longrightarrow>
   validate_required_text R (dict_get payload ''category'' VNone) ''category'' = Inl e \<Longrightarrow>
   add_expense R fs u payload today now = (Inl e, fs)"
  by (simp add: add_expense_def)

lemma add_expense_tags_fail:
  "validate_date_iso (resolve_date payload today) = Inr () \<Longrightarrow>
   validate_amount_positive (dict_get payload ''amount'' VNone) = Inr a \<Longrightarrow>
   validate_required_text R (dict_get payload ''category'' VNone) ''category'' = Inr () \<Longrightarrow>
   normalize_tags R (dict_get payload ''tags'' VNone) = Inl e \<Longrightarrow>
   add_expense R fs u payload today now = (Inl e, fs)"
  by (simp add: add_expense_def)

lemma add_expense_load_fails:
  "validate_date_iso (resolve_date payload today) = Inr () \<Longrightarrow>
   validate_amount_positive (dict_get payload ''amount'' VNone) = Inr a \<Longrightarrow>
   validate_required_text R (dict_get payload ''category'' VNone) ''category'' = Inr () \<Longrightarrow>
   normalize_tags R (dict_get payload ''tags'' VNone) = Inr tags \<Longrightarrow>
   load_expenses fs u = (Inl e, fs1) \<Longrightarrow>
   add_expense R fs u payload today now = (Inl e, fs1)"
  by (simp add: add_expense_def)

lemma add_expense_append_fails:
  "validate_date_iso (resolve_date payload today) = Inr () \<Longrightarrow>
   validate_amount_positive (dict_get payload ''amount'' VNone) = Inr a \<Longrightarrow>
   validate_required_text R (dict_get payload ''category'' VNone) ''category'' = Inr () \<Longrightarrow>
   normalize_tags R (dict_get payload ''tags'' VNone) = Inr tags \<Longrightarrow>
   map_of payload ''category'' = Some c \<Longrightarrow>
   load_expenses fs u = (Inr items, fs1) \<Longrightarrow>
   \<forall>xs. items \<noteq> VList xs \<Longrightarrow>
   add_expense R fs u payload today now = (Inl AttributeError, fs1)"
  by (cases items) (simp_all add: add_expense_def dict_item_def)

lemma add_expense_saves:
  "validate_date_iso (resolve_date payload today) = Inr () \<Longrightarrow>
   validate_amount_positive (dict_get payload ''amount'' VNone) = Inr a \<Longrightarrow>
   validate_required_text R (dict_get payload ''category'' VNone) ''category'' = Inr () \<Longrightarrow>
   normalize_tags R (dict_get payload ''tags'' VNone) = Inr tags \<Longrightarrow>
   map_of payload ''category'' = Some c \<Longrightarrow>
   load_expenses fs u = (Inr (VList xs), fs1) \<Longrightarrow>
   add_expense R fs u payload today now =
     (case save_expenses fs1 u (VList (xs @ [new_expense (generate_expense_id now)
               (resolve_date payload today) a c
               (dict_get payload ''description'' (VStr []))
               (dict_get payload ''payment_method'' (VStr [])) tags])) of
        (Inl e, fs2) \<Rightarrow> (Inl e, fs2)
      | (Inr _, fs2) \<Rightarrow> (Inr (generate_expense_id now), fs2))"
  by (simp add: add_expense_def Let_def dict_item_def)

text \<open>The three outcomes of \<^verbatim>\<open>add_expense\<close>, shared by the statements below.\<close>

lemma add_expense_outcome:
  assumes run: "add_expense R fs u payload today now = (r, fs')"
  shows "(\<exists>xs fs1 a c tags.
            r = Inr (generate_expense_id now)
          \<and> validate_date_iso (resolve_date payload today) = Inr ()
          \<and> validate_amount_positive (dict_get payload ''amount'' VNone) = Inr a
          \<and> map_of payload ''category'' = Some c
          \<and> validate_required_text R c ''category'' = Inr ()
          \<and> normalize_tags R (dict_get payload ''tags'' VNone) = Inr tags
          \<and> load_expenses fs u = (Inr (VList xs), fs1)
          \<and> ints_ok (VList (xs @ [new_expense (generate_expense_id now) (resolve_date payload today) a c
                 (dict_get payload ''description'' (VStr []))
                 (dict_get payload ''payment_method'' (VStr [])) tags]))
          \<and> fs' = fs(expenses_path u := File True True (Json (json_norm (VDict [(''expenses'',
               VList (xs @ [new_expense (generate_expense_id now) (resolve_date payload today) a c
                 (dict_get payload ''description'' (VStr []))
                 (dict_get payload ''payment_method'' (VStr [])) tags]))])))))
     \<or> (\<exists>e. r = Inl e \<and> fs' = fs
          \<and> (e = ValueError ''date must be in format YYYY-MM-DD''
             \<or> e = ValueError ''amount must be a number''
             \<or> e = ValueError ''amount must be positive''
             \<or> e = ValueError ''category is required''
             \<or> e = digits_error
             \<or> e = OSError \<or> e = JSONDecodeError \<or> e = AttributeError))
     \<or> (\<exists>xs fs1 a c tags.
            r = Inl digits_error
          \<and> validate_date_iso (resolve_date payload today) = Inr ()
          \<and> validate_amount_positive (dict_get payload ''amount'' VNone) = Inr a
          \<and> map_of payload ''category'' = Some c
          \<and> validate_required_text R c ''category'' = Inr ()
          \<and> normalize_tags R (dict_get payload ''tags'' VNone) = Inr tags
          \<and> load_expenses fs u = (Inr (VList xs), fs1)
          \<and> \<not> ints_ok (VList (xs @ [new_expense (generate_expense_id now) (resolve_date payload today) a c
                 (dict_get payload ''description'' (VStr []))
                 (dict_get payload ''payment_method'' (VStr [])) tags]))
          \<and> fs' = fs(expenses_path u := File True True Malformed))"
    (is "?S \<or> ?F \<or> ?D")
proof (cases "validate_date_iso (resolve_date payload today)")
  case (Inl e)
  with run add_expense_date_fails [OF Inl, of R fs u now] have "r = Inl e" "fs' = fs"
    by simp_all
  with validate_date_iso_error [OF Inl] have ?F
    by simp
  then show ?thesis
    by (intro disjI2 disjI1)
next
  case (Inr x)
  then have d: "validate_date_iso (resolve_date payload today) = Inr ()"
    by simp
  show ?thesis
  proof (cases "validate_amount_positive (dict_get payload ''amount'' VNone)")
    case (Inl e)
    with run add_expense_amount_fails [OF d Inl, of R fs u now] have "r = Inl e" "fs' = fs"
      by simp_all
    with validate_amount_positive_error [OF Inl] have ?F
      by auto
    then show ?thesis
      by (intro disjI2 disjI1)
  next
    case a: (Inr a)
    show ?thesis
    proof (cases "validate_required_text R (dict_get payload ''category'' VNone) ''category''")
      case (Inl e)
      with run add_expense_category_fails [OF d a Inl, of fs u now] have "r = Inl e" "fs' = fs"
        by simp_all
      with validate_required_text_error [OF Inl] have ?F
        by auto
      then show ?thesis
        by (intro disjI2 disjI1)
    next
      case (Inr y)
      then have t: "validate_required_text R (dict_get payload ''category'' VNone) ''category'' = Inr ()"
        by simp
      from validated_category_present [OF t]
      obtain c where c: "map_of payload ''category'' = Some c"
        and c': "dict_get payload ''category'' VNone = c"
        by blast
      show ?thesis
      proof (cases "normalize_tags R (dict_get payload ''tags'' VNone)")
        case (Inl e)
        with run add_expense_tags_fail [OF d a t Inl, of fs u now] have "r = Inl e" "fs' = fs"
          by simp_all
        with normalize_tags_error [OF Inl] have ?F
          by simp
        then show ?thesis
          by (intro disjI2 disjI1)
      next
        case g: (Inr tags)
        obtain lr fs1 where l: "load_expenses fs u = (lr, fs1)"
          by (cases "load_expenses fs u") auto
        show ?thesis
        proof (cases lr)
          case (Inl e)
          with l have l': "load_expenses fs u = (Inl e, fs1)"
            by simp
          with run add_expense_load_fails [OF d a t g l', of now] have "r = Inl e" "fs' = fs1"
            by simp_all
          with load_expenses_error [OF l'] have ?F
            by auto
          then show ?thesis
            by (intro disjI2 disjI1)
        next
          case (Inr items)
          let ?new = "new_expense (generate_expense_id now) (resolve_date payload today) a c
                 (dict_get payload ''description'' (VStr []))
                 (dict_get payload ''payment_method'' (VStr [])) tags"
          have l': "load_expenses fs u = (Inr items, fs1)"
            using l Inr by simp
          show ?thesis
          proof (cases "\<exists>xs. items = VList xs")
            case False
            then have nl: "\<forall>xs. items \<noteq> VList xs"
              by simp
            have "fs1 = fs"
              using load_expenses_result [OF l'] nl by auto
            with run add_expense_append_fails [OF d a t g c l' nl, of now]
            have "r = Inl AttributeError" "fs' = fs"
              by simp_all
            then have ?F
              by simp
            then show ?thesis
              by (intro disjI2 disjI1)
          next
            case True
            then obtain xs where xs: "items = VList xs"
              by blast
            have lx: "load_expenses fs u = (Inr (VList xs), fs1)"
              using l' xs by simp
            note step = add_expense_saves [OF d a t g c lx, of now]
            from save_after_load [OF lx, of "VList (xs @ [?new])"]
            consider
              (blocked) "save_expenses fs1 u (VList (xs @ [?new])) = (Inl OSError, fs1)" "fs1 = fs"
            | (written) "ints_ok (VList (xs @ [?new]))"
                "save_expenses fs1 u (VList (xs @ [?new])) =
                   (Inr (), fs(expenses_path u := File True True
                      (Json (json_norm (VDict [(''expenses'', VList (xs @ [?new]))])))))"
            | (torn) "\<not> ints_ok (VList (xs @ [?new]))"
                "save_expenses fs1 u (VList (xs @ [?new])) =
                   (Inl digits_error, fs(expenses_path u := File True True Malformed))"
              by blast
            then show ?thesis
            proof cases
              case blocked
              from run step have "r = Inl OSError" "fs' = fs1"
                unfolding blocked(1) by simp_all
              with blocked(2) have ?F
                by simp
              then show ?thesis
                by (intro disjI2 disjI1)
            next
              case written
              from run step have "r = Inr (generate_expense_id now)"
                "fs' = fs(expenses_path u := File True True
                      (Json (json_norm (VDict [(''expenses'', VList (xs @ [?new]))]))))"
                unfolding written(2) by simp_all
              with d a t c c' g lx written(1) have ?S
                by (intro exI [of _ xs] exI [of _ fs1] exI [of _ a] exI [of _ c] exI [of _ tags])
                   simp
              then show ?thesis
                by (rule disjI1)
            next
              case torn
              from run step have "r = Inl digits_error"
                "fs' = fs(expenses_path u := File True True Malformed)"
                unfolding torn(2) by simp_all
              with d a t c c' g lx torn(1) have ?D
                by (intro exI [of _ xs] exI [of _ fs1] exI [of _ a] exI [of _ c] exI [of _ tags])
                   simp
              then show ?thesis
                by (intro disjI2)
            qed
          qed
        qed
      qed
    qed
  qed
qed

lemma load_expenses_after_save:
  "load_expenses (fs(expenses_path u :=
       File True True (Json (json_norm (VDict [(''expenses'', VList xs)]))))) u
     = (Inr (VList (map json_norm xs)),
        fs(expenses_path u := File True True (Json (json_norm (VDict [(''expenses'', VList xs)])))))"
  by (simp add: load_expenses_def path_exists_def read_json_def dict_get_def)





lemma add_expense_first:
  assumes "validate_date_iso (resolve_date payload today) = Inr ()"
    and "validate_amount_positive (dict_get payload ''amount'' VNone) = Inr a"
    and "map_of payload ''category'' = Some c"
    and "validate_required_text R c ''category'' = Inr ()"
    and "normalize_tags R (dict_get payload ''tags'' VNone) = Inr tags"
    and "fs (expenses_path u) = Absent True"
    and "ints_ok (new_expense (generate_expense_id now) (resolve_date payload today) a c
          (dict_get payload ''description'' (VStr []))
          (dict_get payload ''payment_method'' (VStr [])) tags)"
  shows "add_expense R fs u payload today now =
     (Inr (generate_expense_id now),
      fs(expenses_path u := File True True (Json (json_norm (VDict [(''expenses'',
        VList [new_expense (generate_expense_id now) (resolve_date payload today) a c
          (dict_get payload ''description'' (VStr []))
          (dict_get payload ''payment_method'' (VStr [])) tags])])))))"
proof -
  let ?fs1 = "fs(expenses_path u := File True True (Json (VDict [(''expenses'', VList [])])))"
  have l: "load_expenses fs u = (Inr (VList []), ?fs1)"
    using assms(6) by (rule load_expenses_missing)
  have s: "?fs1 (expenses_path u) = File True True (Json (VDict [(''expenses'', VList [])]))"
    by simp
  have i: "ints_ok (VList ([] @ [new_expense (generate_expense_id now) (resolve_date payload today) a c
          (dict_get payload ''description'' (VStr []))
          (dict_get payload ''payment_method'' (VStr [])) tags]))"
    using assms(7) by simp
  show ?thesis
    using add_expense_ok [where fs = fs and ?fs1.0 = "?fs1" and u = u and now = now,
        OF assms(1,2,3,4,5) l s i]
    by simp
qed


lemma today_iso_clock_0: "today_iso clock_0 = ''2025-09-07''"
  by code_simp

lemma validate_clock_0: "validate_date_iso (VStr (today_iso clock_0)) = Inr ()"
  by (rule validate_today_iso) (simp add: clock_0_def check_date_args_def days_in_month_def)

lemma validate_amount_10: "validate_amount_positive (VInt 10) = Inr (Fin 10)"
  by (simp add: validate_amount_positive_def double_overflow_def)

lemma py_strip_spaced_Food: "py_strip '' Food '' = ''Food''"
  by code_simp

lemma validate_amount_nan: "validate_amount_positive (VStr ''nan'') = Inr NaN"
proof -
  have "py_float (VStr ''nan'') = Inr NaN"
    by code_simp
  then show ?thesis
    unfolding validate_amount_positive_def by simp
qed

lemma add_expense_payload_food:
  "add_expense repr_0 fresh_fs ''alice'' payload_food clock_0 clock_0
     = (Inr ''exp_20250907_153045000123'', fs_with entry_food)"
proof -
  have r: "resolve_date payload_food clock_0 = VStr (today_iso clock_0)"
    by (simp add: resolve_date_def payload_food_def dict_get_def)
  have v: "validate_date_iso (resolve_date payload_food clock_0) = Inr ()"
    "validate_amount_positive (dict_get payload_food ''amount'' VNone) = Inr (Fin 10)"
    "map_of payload_food ''category'' = Some (VStr ''Food'')"
    "validate_required_text repr_0 (VStr ''Food'') ''category'' = Inr ()"
    "normalize_tags repr_0 (dict_get payload_food ''tags'' VNone) = Inr []"
    unfolding r
    by (simp_all add: validate_clock_0 payload_food_def dict_get_def validate_amount_10 validate_amount_nan
          validate_required_text_def py_strip_Food py_strip_spaced_Food)
  have i: "ints_ok (new_expense (generate_expense_id clock_0) (resolve_date payload_food clock_0)
          (Fin 10) (VStr ''Food'')
          (dict_get payload_food ''description'' (VStr []))
          (dict_get payload_food ''payment_method'' (VStr [])) [])"
    unfolding r by (simp add: new_expense_def payload_food_def dict_get_def)
  have "add_expense repr_0 fresh_fs ''alice'' payload_food clock_0 clock_0 =
     (Inr (generate_expense_id clock_0),
      fresh_fs(expenses_path ''alice'' := File True True (Json (json_norm (VDict [(''expenses'',
        VList [new_expense (generate_expense_id clock_0) (resolve_date payload_food clock_0)
          (Fin 10) (VStr ''Food'')
          (dict_get payload_food ''description'' (VStr []))
          (dict_get payload_food ''payment_method'' (VStr [])) []])])))))"
    by (rule add_expense_first [OF v _ i]) (simp add: fresh_fs_def)
  then show ?thesis
    unfolding generate_expense_id_clock_0 r today_iso_clock_0
    by (simp add: payload_food_def dict_get_def new_expense_def fs_with_def entry_food_def)
qed

lemma add_expense_payload_empty_date:
  "add_expense repr_0 fresh_fs ''alice'' payload_empty_date clock_0 clock_0
     = (Inr ''exp_20250907_153045000123'', fs_with entry_food)"
proof -
  have r: "resolve_date payload_empty_date clock_0 = VStr (today_iso clock_0)"
    by (simp add: resolve_date_def payload_empty_date_def dict_get_def)
  have v: "validate_date_iso (resolve_date payload_empty_date clock_0) = Inr ()"
    "validate_amount_positive (dict_get payload_empty_date ''amount'' VNone) = Inr (Fin 10)"
    "map_of payload_empty_date ''category'' = Some (VStr ''Food'')"
    "validate_required_text repr_0 (VStr ''Food'') ''category'' = Inr ()"
    "normalize_tags repr_0 (dict_get payload_empty_date ''tags'' VNone) = Inr []"
    unfolding r
    by (simp_all add: validate_clock_0 payload_empty_date_def dict_get_def validate_amount_10 validate_amount_nan
          validate_required_text_def py_strip_Food py_strip_spaced_Food)
  have i: "ints_ok (new_expense (generate_expense_id clock_0) (resolve_date payload_empty_date clock_0)
          (Fin 10) (VStr ''Food'')
          (dict_get payload_empty_date ''description'' (VStr []))
          (dict_get payload_empty_date ''payment_method'' (VStr [])) [])"
    unfolding r by (simp add: new_expense_def payload_empty_date_def dict_get_def)
  have "add_expense repr_0 fresh_fs ''alice'' payload_empty_date clock_0 clock_0 =
     (Inr (generate_expense_id clock_0),
      fresh_fs(expenses_path ''alice'' := File True True (Json (json_norm (VDict [(''expenses'',
        VList [new_expense (generate_expense_id clock_0) (resolve_date payload_empty_date clock_0)
          (Fin 10) (VStr ''Food'')
          (dict_get payload_empty_date ''description'' (VStr []))
          (dict_get payload_empty_date ''payment_method'' (VStr [])) []])])))))"
    by (rule add_expense_first [OF v _ i]) (simp add: fresh_fs_def)
  then show ?thesis
    unfolding generate_expense_id_clock_0 r today_iso_clock_0
    by (simp add: payload_empty_date_def dict_get_def new_expense_def fs_with_def entry_food_def)
qed

lemma add_expense_payload_spaced:
  "add_expense repr_0 fresh_fs ''alice'' payload_spaced clock_0 clock_0
     = (Inr ''exp_20250907_153045000123'', fs_with entry_spaced)"
proof -
  have r: "resolve_date payload_spaced clock_0 = VStr (today_iso clock_0)"
    by (simp add: resolve_date_def payload_spaced_def dict_get_def)
  have v: "validate_date_iso (resolve_date payload_spaced clock_0) = Inr ()"
    "validate_amount_positive (dict_get payload_spaced ''amount'' VNone) = Inr (Fin 10)"
    "map_of payload_spaced ''category'' = Some (VStr '' Food '')"
    "validate_required_text repr_0 (VStr '' Food '') ''category'' = Inr ()"
    "normalize_tags repr_0 (dict_get payload_spaced ''tags'' VNone) = Inr []"
    unfolding r
    by (simp_all add: validate_clock_0 payload_spaced_def dict_get_def validate_amount_10 validate_amount_nan
          validate_required_text_def py_strip_Food py_strip_spaced_Food)
  have i: "ints_ok (new_expense (generate_expense_id clock_0) (resolve_date payload_spaced clock_0)
          (Fin 10) (VStr '' Food '')
          (dict_get payload_spaced ''description'' (VStr []))
          (dict_get payload_spaced ''payment_method'' (VStr [])) [])"
    unfolding r by (simp add: new_expense_def payload_spaced_def dict_get_def)
  have "add_expense repr_0 fresh_fs ''alice'' payload_spaced clock_0 clock_0 =
     (Inr (generate_expense_id clock_0),
      fresh_fs(expenses_path ''alice'' := File True True (Json (json_norm (VDict [(''expenses'',
        VList [new_expense (generate_expense_id clock_0) (resolve_date payload_spaced clock_0)
          (Fin 10) (VStr '' Food '')
          (dict_get payload_spaced ''description'' (VStr []))
          (dict_get payload_spaced ''payment_method'' (VStr [])) []])])))))"
    by (rule add_expense_first [OF v _ i]) (simp add: fresh_fs_def)
  then show ?thesis
    unfolding generate_expense_id_clock_0 r today_iso_clock_0
    by (simp add: payload_spaced_def dict_get_def new_expense_def fs_with_def entry_spaced_def)
qed


lemma load_fs_with: "load_expenses (fs_with e) ''alice'' = (Inr (VList [e]), fs_with e)"
  by (simp add: fs_with_def load_expenses_def path_exists_def read_json_def dict_get_def)




text \<open>
  Claim C5, as the code has it. The date is \<^verbatim>\<open>payload.get("date") or today_iso()\<close>: the
  payload's value when that value is truthy, and today's date when the field is absent
  or its value is falsy (\<^verbatim>\<open>None\<close>, the empty string, zero, \<^verbatim>\<open>False\<close>, an empty list or
  dict). The resolved date is validated before anything else: if the check fails the
  call raises its error and touches no file. When the call returns an id, the resolved
  date passed the check and is the date of the stored entry that has this id; so a
  payload without a date stores today's date.
\<close>

theorem add_expense_date_resolution:
  "resolve_date payload today =
     (if py_truthy (dict_get payload ''date'' VNone) then dict_get payload ''date'' VNone
      else VStr (today_iso today))
   \<and> (map_of payload ''date'' = None \<longrightarrow> resolve_date payload today = VStr (today_iso today))
   \<and> (\<forall>e. validate_date_iso (resolve_date payload today) = Inl e \<longrightarrow>
          add_expense R fs u payload today now = (Inl e, fs))
   \<and> (\<forall>eid fs'. add_expense R fs u payload today now = (Inr eid, fs') \<longrightarrow>
          validate_date_iso (resolve_date payload today) = Inr ()
        \<and> (\<exists>xs entry. load_expenses fs' u = (Inr (VList (xs @ [entry])), fs')
              \<and> py_item entry ''id'' = Inr (VStr eid)
              \<and> py_item entry ''date'' = Inr (resolve_date payload today)))"
proof -
  have 1: "resolve_date payload today =
     (if py_truthy (dict_get payload ''date'' VNone) then dict_get payload ''date'' VNone
      else VStr (today_iso today))"
    by (simp add: resolve_date_def Let_def)
  have 2: "map_of payload ''date'' = None \<longrightarrow> resolve_date payload today = VStr (today_iso today)"
    by (simp add: resolve_date_def dict_get_def)
  have 3: "\<forall>e. validate_date_iso (resolve_date payload today) = Inl e \<longrightarrow>
          add_expense R fs u payload today now = (Inl e, fs)"
    by (simp add: add_expense_date_fails)
  have 4: "validate_date_iso (resolve_date payload today) = Inr ()
        \<and> (\<exists>xs entry. load_expenses fs' u = (Inr (VList (xs @ [entry])), fs')
              \<and> py_item entry ''id'' = Inr (VStr eid)
              \<and> py_item entry ''date'' = Inr (resolve_date payload today))"
    if run: "add_expense R fs u payload today now = (Inr eid, fs')" for eid fs'
  proof -
    from add_expense_outcome [OF run] obtain xs a c tags where
      v: "validate_date_iso (resolve_date payload today) = Inr ()"
      and i: "eid = generate_expense_id now"
      and f: "fs' = fs(expenses_path u := File True True (Json (json_norm (VDict [(''expenses'',
               VList (xs @ [new_expense (generate_expense_id now) (resolve_date payload today) a c
                 (dict_get payload ''description'' (VStr []))
                 (dict_get payload ''payment_method'' (VStr [])) tags]))]))))"
      by auto
    let ?new = "new_expense (generate_expense_id now) (resolve_date payload today) a c
                 (dict_get payload ''description'' (VStr []))
                 (dict_get payload ''payment_method'' (VStr [])) tags"
    from validate_date_iso_string [OF v] obtain s where s: "resolve_date payload today = VStr s"
      by blast
    have "load_expenses fs' u = (Inr (VList (map json_norm (xs @ [?new]))), fs')"
      unfolding f by (rule load_expenses_after_save)
    then have "load_expenses fs' u = (Inr (VList (map json_norm xs @ [json_norm ?new])), fs')"
      by simp
    moreover have "py_item (json_norm ?new) ''id'' = Inr (VStr eid)"
      by (simp add: new_expense_def dict_item_def i)
    moreover have "py_item (json_norm ?new) ''date'' = Inr (resolve_date payload today)"
      unfolding s by (simp add: new_expense_def dict_item_def)
    ultimately show ?thesis
      using v by blast
  qed
  from 1 2 3 4 show ?thesis
    by blast
qed

theorem add_expense_date_resolution_witness:
  "map_of payload_food ''date'' = None
   \<and> resolve_date payload_food clock_0 = VStr (today_iso clock_0)
   \<and> today_iso clock_0 = ''2025-09-07''
   \<and> add_expense repr_0 fresh_fs ''alice'' payload_food clock_0 clock_0
       = (Inr ''exp_20250907_153045000123'', fs_with entry_food)
   \<and> validate_date_iso (resolve_date payload_food clock_0) = Inr ()
   \<and> load_expenses (fs_with entry_food) ''alice'' = (Inr (VList [entry_food]), fs_with entry_food)
   \<and> py_item entry_food ''date'' = Inr (VStr ''2025-09-07'')"
proof -
  have n: "map_of payload_food ''date'' = None"
    by (simp add: payload_food_def)
  note inst = add_expense_date_resolution
    [of payload_food clock_0 repr_0 fresh_fs "''alice''" clock_0]
  from inst n have r: "resolve_date payload_food clock_0 = VStr (today_iso clock_0)"
    by blast
  from inst add_expense_payload_food
  have v: "validate_date_iso (resolve_date payload_food clock_0) = Inr ()"
    by blast
  have d: "py_item entry_food ''date'' = Inr (VStr ''2025-09-07'')"
    by (simp add: entry_food_def dict_item_def)
  from n r v d show ?thesis
    using today_iso_clock_0 add_expense_payload_food load_fs_with [of entry_food] by blast
qed

text \<open>
  Claim C5 as stated fails: it promises \<^verbatim>\<open>payload.date\<close> whenever the field is present. A
  payload whose date field is present and holds the empty string is accepted, and the
  entry that is stored carries today's date.
\<close>

theorem add_expense_present_empty_date_gets_today:
  "map_of payload_empty_date ''date'' = Some (VStr [])
   \<and> add_expense repr_0 fresh_fs ''alice'' payload_empty_date clock_0 clock_0
       = (Inr ''exp_20250907_153045000123'', fs_with entry_food)
   \<and> load_expenses (fs_with entry_food) ''alice'' = (Inr (VList [entry_food]), fs_with entry_food)
   \<and> py_item entry_food ''date'' = Inr (VStr ''2025-09-07'')
   \<and> VStr ''2025-09-07'' \<noteq> VStr []"
  by (simp add: add_expense_payload_empty_date load_fs_with)
     (simp add: payload_empty_date_def entry_food_def dict_item_def)

section \<open>Properties of listing\<close>

subsection \<open>Comprehensions\<close>

lemma filter_m_pure:
  "\<forall>x \<in> set xs. p x = Inr (q x) \<Longrightarrow> filter_m p xs = Inr (filter q xs)"
  by (induction xs) auto

lemma filter_m_holds:
  "filter_m p xs = Inr ys \<Longrightarrow> set ys \<subseteq> set xs \<and> (\<forall>y \<in> set ys. p y = Inr True)"
proof (induction xs arbitrary: ys)
  case Nil
  then show ?case by simp
next
  case (Cons x xs)
  then show ?case
    by (auto split: sum.splits if_splits)
qed

lemma map_m_pure:
  "\<forall>x \<in> set xs. f x = Inr (g x) \<Longrightarrow> map_m f xs = Inr (map g xs)"
  by (induction xs) auto

lemma map_m_length: "map_m f xs = Inr ys \<Longrightarrow> length ys = length xs"
  by (induction xs arbitrary: ys) (auto split: sum.splits)

lemma str_keys_length: "str_keys ks = Some ss \<Longrightarrow> length ss = length ks"
  by (induction ks arbitrary: ss rule: str_keys.induct) auto

lemma str_keys_strings: "str_keys (map (\<lambda>e. (VStr (d e), VStr (i e))) xs) = Some (map (\<lambda>e. (d e, i e)) xs)"
  by (induction xs) auto

subsection \<open>Well-formed entries\<close>

lemma wf_entry_fields:
  assumes "wf_entry e"
  obtains d i c where "py_item e ''date'' = Inr (VStr d)" "py_item e ''id'' = Inr (VStr i)"
    "py_item e ''category'' = Inr c" "entry_date e = Some d" "entry_id e = Some i"
    "entry_category e = Some c" "entry_key e = (d, i)"
proof -
  from assms obtain d where d: "py_item e ''date'' = Inr (VStr d)"
    by (auto simp: wf_entry_def entry_date_def split: sum.splits pyval.splits)
  from assms obtain i where i: "py_item e ''id'' = Inr (VStr i)"
    by (auto simp: wf_entry_def entry_id_def split: sum.splits pyval.splits)
  from assms obtain c where c: "py_item e ''category'' = Inr c"
    by (auto simp: wf_entry_def entry_category_def split: sum.splits)
  show thesis
    by (rule that [OF d i c]) (simp_all add: entry_date_def entry_id_def entry_category_def entry_key_def d i c)
qed

lemma wf_from_date_ok: "wf_entry e \<Longrightarrow> from_date_ok f e = Inr (date_from f e)"
  by (erule wf_entry_fields) (simp add: from_date_ok_def date_from_def)

lemma wf_to_date_ok: "wf_entry e \<Longrightarrow> to_date_ok t e = Inr (date_to t e)"
  by (erule wf_entry_fields) (simp add: to_date_ok_def date_to_def)

lemma wf_category_ok: "wf_entry e \<Longrightarrow> category_ok c e = Inr (category_is c e)"
  by (erule wf_entry_fields) (simp add: category_ok_def category_is_def)

lemma wf_sort_key_of:
  "wf_entry e \<Longrightarrow> sort_key_of e = Inr (VStr (fst (entry_key e)), VStr (snd (entry_key e)))"
  by (erule wf_entry_fields) (simp add: sort_key_of_def)

lemma wf_entry_entry: "wf_entry (entry i d c)"
  by (simp add: wf_entry_def entry_def entry_date_def entry_id_def entry_category_def dict_item_def)

lemma entry_key_entry: "entry_key (entry i d c) = (d, i)"
  by (simp add: entry_key_def entry_def entry_date_def entry_id_def dict_item_def)

subsection \<open>The filter steps on a well-formed collection\<close>

lemma filter_step_wf:
  assumes "list_all wf_entry xs"
    and "\<And>v e. wf_entry e \<Longrightarrow> p v e = Inr (q v e)"
  shows "filter_step f k p (VList xs) =
     Inr (VList (filter (\<lambda>e. case map_of f k of None \<Rightarrow> True | Some v \<Rightarrow> q v e) xs))"
proof (cases "map_of f k")
  case None
  then show ?thesis
    by (simp add: filter_step_def)
next
  case (Some v)
  have "filter_m (p v) xs = Inr (filter (q v) xs)"
    using assms by (intro filter_m_pure) (simp add: list_all_iff)
  with Some show ?thesis
    by (simp add: filter_step_def comprehension_def)
qed

lemma apply_filters_wf:
  assumes "list_all wf_entry xs"
  shows "apply_filters filters (VList xs) = Inr (VList (filter (entry_matches filters) xs))"
proof (cases filters)
  case None
  then show ?thesis
    by (simp add: apply_filters_def entry_matches_def present_def)
next
  case (Some f)
  show ?thesis
  proof (cases "f = []")
    case True
    with Some show ?thesis
      by (simp add: apply_filters_def entry_matches_def present_def)
  next
    case False
    let ?q1 = "\<lambda>e. case map_of f ''from_date'' of None \<Rightarrow> True | Some v \<Rightarrow> date_from v e"
    let ?q2 = "\<lambda>e. case map_of f ''to_date'' of None \<Rightarrow> True | Some v \<Rightarrow> date_to v e"
    let ?q3 = "\<lambda>e. case map_of f ''category'' of None \<Rightarrow> True | Some v \<Rightarrow> category_is v e"
    have w1: "list_all wf_entry (filter ?q1 xs)"
      using assms by (simp add: list_all_iff)
    then have w2: "list_all wf_entry (filter ?q2 (filter ?q1 xs))"
      by (simp add: list_all_iff)
    have s1: "filter_step f ''from_date'' from_date_ok (VList xs) = Inr (VList (filter ?q1 xs))"
      using assms by (rule filter_step_wf) (rule wf_from_date_ok)
    have s2: "filter_step f ''to_date'' to_date_ok (VList (filter ?q1 xs))
                = Inr (VList (filter ?q2 (filter ?q1 xs)))"
      using w1 by (rule filter_step_wf) (rule wf_to_date_ok)
    have s3: "filter_step f ''category'' category_ok (VList (filter ?q2 (filter ?q1 xs)))
                = Inr (VList (filter ?q3 (filter ?q2 (filter ?q1 xs))))"
      using w2 by (rule filter_step_wf) (rule wf_category_ok)
    have "filter ?q3 (filter ?q2 (filter ?q1 xs)) = filter (entry_matches filters) xs"
      by (auto simp: Some entry_matches_def present_def intro!: filter_cong)
    with Some False s1 s2 s3 show ?thesis
      by (simp add: apply_filters_def)
  qed
qed

subsection \<open>Sorting\<close>

lemma mset_sort_reverse:
  "length ks = length xs \<Longrightarrow> mset (sort_reverse (zip ks xs)) = mset xs"
proof -
  assume l: "length ks = length xs"
  have "mset (sort_reverse (zip ks xs)) = image_mset snd (mset (zip ks xs))"
    by (simp add: sort_reverse_def)
  also have "\<dots> = mset (map snd (zip ks xs))"
    by simp
  also have "\<dots> = mset xs"
    using l by simp
  finally show ?thesis .
qed

lemma sort_reverse_descending:
  "sorted_wrt (\<lambda>a b. k b \<le> k a) (sort_reverse (zip (map k xs) xs))"
  for k :: "'a \<Rightarrow> 'k::linorder"
proof -
  let ?ys = "sort_key fst (rev (zip (map k xs) xs))"
  have key: "k (snd p) = fst p" if "p \<in> set ?ys" for p
    using that by (auto simp: set_zip)
  have "sorted (map fst ?ys)"
    by (rule sorted_sort_key)
  then have "sorted_wrt (\<lambda>p q. fst p \<le> fst q) ?ys"
    by (simp add: sorted_wrt_map)
  then have "sorted_wrt (\<lambda>p q. k (snd p) \<le> k (snd q)) ?ys"
    by (rule sorted_wrt_mono_rel [rotated]) (simp add: key)
  then have "sorted_wrt (\<lambda>p q. k (snd q) \<le> k (snd p)) (rev ?ys)"
    by (simp add: sorted_wrt_rev)
  then show ?thesis
    by (simp add: sort_reverse_def sorted_wrt_map)
qed

lemma py_sort_wf:
  assumes "list_all wf_entry xs"
  shows "py_sort (VList xs) = Inr (sort_reverse (zip (map entry_key xs) xs))"
proof -
  have "map_m sort_key_of xs
          = Inr (map (\<lambda>e. (VStr (fst (entry_key e)), VStr (snd (entry_key e)))) xs)"
    using assms by (intro map_m_pure) (simp add: list_all_iff wf_sort_key_of)
  moreover have "str_keys (map (\<lambda>e. (VStr (fst (entry_key e)), VStr (snd (entry_key e)))) xs)
          = Some (map entry_key xs)"
    using str_keys_strings [of "\<lambda>e. fst (entry_key e)" "\<lambda>e. snd (entry_key e)" xs] by simp
  ultimately show ?thesis
    by (simp add: py_sort_def)
qed

lemma py_sort_mset: "py_sort (VList xs) = Inr out \<Longrightarrow> mset out = mset xs"
proof -
  assume a: "py_sort (VList xs) = Inr out"
  then obtain keys ks where k: "map_m sort_key_of xs = Inr keys" "str_keys keys = Some ks"
    and out: "out = sort_reverse (zip ks xs)"
    by (auto simp: py_sort_def split: sum.splits option.splits)
  from k have "length ks = length xs"
    by (simp add: map_m_length str_keys_length)
  with out show ?thesis
    by (simp add: mset_sort_reverse)
qed

lemma key_desc_iff: "key_desc a b \<longleftrightarrow> entry_key b \<le> entry_key a"
  by (cases "entry_key a"; cases "entry_key b") (auto simp: key_desc_def)

text \<open>What \<^verbatim>\<open>list_expenses\<close> returns on a well-formed collection.\<close>

lemma list_expenses_wf:
  assumes "load_expenses fs u = (Inr (VList items), fs1)" and "list_all wf_entry items"
  shows "list_expenses fs u filters =
     (Inr (sort_reverse (zip (map entry_key (filter (entry_matches filters) items))
                             (filter (entry_matches filters) items))), fs1)"
proof -
  have "list_all wf_entry (filter (entry_matches filters) items)"
    using assms(2) by (simp add: list_all_iff)
  then show ?thesis
    by (simp add: list_expenses_def assms apply_filters_wf py_sort_wf)
qed

lemma load_store_fs: "load_expenses (store_fs items) u = (Inr (VList items), store_fs items)"
  by (simp add: store_fs_def load_expenses_def path_exists_def read_json_def dict_get_def)

subsection \<open>Any stored collection\<close>

text \<open>
  When a comprehension returns, every test it made returned; so its result is the plain
  filter by any predicate that agrees with the test wherever the test returns.
\<close>

lemma filter_m_result:
  assumes "filter_m p xs = Inr ys" and "\<And>x b. p x = Inr b \<Longrightarrow> b = q x"
  shows "ys = filter q xs"
  using assms(1)
proof (induction xs arbitrary: ys)
  case Nil
  then show ?case by simp
next
  case (Cons x xs)
  from Cons.prems obtain b zs where b: "p x = Inr b" and zs: "filter_m p xs = Inr zs"
    and ys: "ys = (if b then x # zs else zs)"
    by (auto split: sum.splits)
  from Cons.IH [OF zs] assms(2) [OF b] ys show ?case
    by simp
qed

lemma from_date_ok_result: "from_date_ok f e = Inr b \<Longrightarrow> b = date_from f e"
  by (cases "py_item e ''date''"; cases "projr (py_item e ''date'')")
     (auto simp: from_date_ok_def date_from_def entry_date_def)

lemma to_date_ok_result: "to_date_ok t e = Inr b \<Longrightarrow> b = date_to t e"
  by (cases "py_item e ''date''"; cases "projr (py_item e ''date'')")
     (auto simp: to_date_ok_def date_to_def entry_date_def)

lemma category_ok_result: "category_ok c e = Inr b \<Longrightarrow> b = category_is c e"
  by (cases "py_item e ''category''") (auto simp: category_ok_def category_is_def entry_category_def)

lemma filter_step_result:
  assumes "filter_step f k p (VList xs) = Inr r"
    and "\<And>v e b. p v e = Inr b \<Longrightarrow> b = q v e"
  shows "r = VList (filter (\<lambda>e. case map_of f k of None \<Rightarrow> True | Some v \<Rightarrow> q v e) xs)"
proof (cases "map_of f k")
  case None
  with assms(1) show ?thesis
    by (simp add: filter_step_def)
next
  case (Some v)
  with assms(1) obtain ys where ys: "filter_m (p v) xs = Inr ys" and r: "r = VList ys"
    by (auto simp: filter_step_def comprehension_def split: sum.splits)
  from ys have "ys = filter (q v) xs"
    by (rule filter_m_result) (rule assms(2))
  with r Some show ?thesis
    by simp
qed

lemma apply_filters_result:
  assumes "apply_filters filters (VList xs) = Inr r"
  shows "r = VList (filter (entry_matches filters) xs)"
proof (cases filters)
  case None
  with assms show ?thesis
    by (simp add: apply_filters_def entry_matches_def present_def)
next
  case (Some f)
  show ?thesis
  proof (cases "f = []")
    case True
    with Some assms show ?thesis
      by (simp add: apply_filters_def entry_matches_def present_def)
  next
    case False
    let ?q1 = "\<lambda>e. case map_of f ''from_date'' of None \<Rightarrow> True | Some v \<Rightarrow> date_from v e"
    let ?q2 = "\<lambda>e. case map_of f ''to_date'' of None \<Rightarrow> True | Some v \<Rightarrow> date_to v e"
    let ?q3 = "\<lambda>e. case map_of f ''category'' of None \<Rightarrow> True | Some v \<Rightarrow> category_is v e"
    from assms Some False obtain r1 r2 where
      s1: "filter_step f ''from_date'' from_date_ok (VList xs) = Inr r1"
      and s2: "filter_step f ''to_date'' to_date_ok r1 = Inr r2"
      and s3: "filter_step f ''category'' category_ok r2 = Inr r"
      by (auto simp: apply_filters_def split: sum.splits)
    from s1 have r1: "r1 = VList (filter ?q1 xs)"
      by (rule filter_step_result) (rule from_date_ok_result)
    from s2 have r2: "r2 = VList (filter ?q2 (filter ?q1 xs))"
      unfolding r1 by (rule filter_step_result) (rule to_date_ok_result)
    from s3 have r3: "r = VList (filter ?q3 (filter ?q2 (filter ?q1 xs)))"
      unfolding r2 by (rule filter_step_result) (rule category_ok_result)
    have "filter ?q3 (filter ?q2 (filter ?q1 xs)) = filter (entry_matches filters) xs"
      by (auto simp: Some entry_matches_def present_def intro!: filter_cong)
    with r3 show ?thesis
      by simp
  qed
qed

text \<open>When the sort returns, every key was a pair of strings: the key of the entry.\<close>

lemma sort_keys_result:
  "map_m sort_key_of xs = Inr keys \<Longrightarrow> str_keys keys = Some ks \<Longrightarrow>
   ks = map entry_key xs \<and> list_all (\<lambda>e. entry_date e \<noteq> None \<and> entry_id e \<noteq> None) xs"
proof (induction xs arbitrary: keys ks)
  case Nil
  then show ?case by auto
next
  case (Cons x xs)
  from Cons.prems(1) obtain k keys' where k: "sort_key_of x = Inr k"
    and keys': "map_m sort_key_of xs = Inr keys'" and keys: "keys = k # keys'"
    by (auto split: sum.splits)
  from Cons.prems(2) keys obtain d i ks' where di: "k = (VStr d, VStr i)"
    and ks': "str_keys keys' = Some ks'" and ks: "ks = (d, i) # ks'"
    by (cases k; cases "fst k"; cases "snd k") auto
  from k di have "py_item x ''date'' = Inr (VStr d)" "py_item x ''id'' = Inr (VStr i)"
    by (auto simp: sort_key_of_def split: sum.splits)
  then have "entry_key x = (d, i)" "entry_date x \<noteq> None" "entry_id x \<noteq> None"
    by (simp_all add: entry_key_def entry_date_def entry_id_def)
  with Cons.IH [OF keys' ks'] ks show ?case
    by simp
qed

lemma py_sort_result:
  assumes "py_sort items = Inr out"
  shows "\<exists>xs. items = VList xs \<and> out = sort_reverse (zip (map entry_key xs) xs)
           \<and> list_all (\<lambda>e. entry_date e \<noteq> None \<and> entry_id e \<noteq> None) xs"
proof -
  from assms obtain xs keys ks where xs: "items = VList xs"
    and k: "map_m sort_key_of xs = Inr keys" "str_keys keys = Some ks"
    and out: "out = sort_reverse (zip ks xs)"
    by (auto simp: py_sort_def split: pyval.splits sum.splits option.splits)
  from sort_keys_result [OF k] xs out show ?thesis
    by simp
qed

lemma sort_reverse_key_desc: "sorted_wrt key_desc (sort_reverse (zip (map entry_key xs) xs))"
  using sort_reverse_descending [of entry_key xs] by (simp add: key_desc_iff [abs_def])

lemma list_expenses_result:
  assumes "list_expenses fs u filters = (Inr out, fs')"
  shows "\<exists>items xs. load_expenses fs u = (Inr items, fs')
           \<and> apply_filters filters items = Inr (VList xs)
           \<and> out = sort_reverse (zip (map entry_key xs) xs)
           \<and> list_all (\<lambda>e. entry_date e \<noteq> None \<and> entry_id e \<noteq> None) xs"
proof -
  obtain lr fs1 where l: "load_expenses fs u = (lr, fs1)"
    by (cases "load_expenses fs u") auto
  with assms obtain items items1 where "lr = Inr items" "fs1 = fs'"
    and a: "apply_filters filters items = Inr items1" and s: "py_sort items1 = Inr out"
    by (auto simp: list_expenses_def split: sum.splits)
  with l py_sort_result [OF s] show ?thesis
    by auto
qed

subsection \<open>Examples\<close>

lemma list_tie_break:
  "list_expenses (store_fs [entry ''exp_a'' d c, entry ''exp_b'' d c]) u None
     = (Inr [entry ''exp_b'' d c, entry ''exp_a'' d c],
        store_fs [entry ''exp_a'' d c, entry ''exp_b'' d c])"
  "list_expenses (store_fs [entry ''exp_b'' d c, entry ''exp_a'' d c]) u None
     = (Inr [entry ''exp_b'' d c, entry ''exp_a'' d c],
        store_fs [entry ''exp_b'' d c, entry ''exp_a'' d c])"
proof -
  have m: "entry_matches None e" for e
    by (simp add: entry_matches_def present_def)
  have o: "\<not> (d, ''exp_b'') \<le> (d, ''exp_a'')" "(d, ''exp_a'') \<le> (d, ''exp_b'')"
    by simp_all
  show "list_expenses (store_fs [entry ''exp_a'' d c, entry ''exp_b'' d c]) u None
     = (Inr [entry ''exp_b'' d c, entry ''exp_a'' d c],
        store_fs [entry ''exp_a'' d c, entry ''exp_b'' d c])"
    using o
    by (simp add: list_expenses_wf [OF load_store_fs] wf_entry_entry m entry_key_entry
          sort_reverse_def)
  show "list_expenses (store_fs [entry ''exp_b'' d c, entry ''exp_a'' d c]) u None
     = (Inr [entry ''exp_b'' d c, entry ''exp_a'' d c],
        store_fs [entry ''exp_b'' d c, entry ''exp_a'' d c])"
    using o
    by (simp add: list_expenses_wf [OF load_store_fs] wf_entry_entry m entry_key_entry
          sort_reverse_def)
qed

lemma three_entries_wf: "list_all wf_entry [jan01, jan15, feb01]"
  by (simp add: jan01_def jan15_def feb01_def wf_entry_entry)

lemma three_entries_january:
  "filter (entry_matches january) [jan01, jan15, feb01] = [jan01, jan15]"
proof -
  have d: "entry_date (entry i d c) = Some d" for i d c
    by (simp add: entry_date_def entry_def dict_item_def)
  have "''2024-01-01'' \<le> ''2024-01-01''" "''2024-01-01'' \<le> ''2024-01-31''"
    "''2024-01-01'' \<le> ''2024-01-15''" "''2024-01-15'' \<le> ''2024-01-31''"
    "''2024-01-01'' \<le> ''2024-02-01''" "\<not> ''2024-02-01'' \<le> ''2024-01-31''"
    by simp_all
  then show ?thesis
    by (simp add: entry_matches_def present_def january_def date_from_def date_to_def d
          jan01_def jan15_def feb01_def)
qed

lemma list_three_entries_january:
  "list_expenses (store_fs [jan01, jan15, feb01]) ''alice'' january
     = (Inr [jan15, jan01], store_fs [jan01, jan15, feb01])"
proof -
  have k: "entry_key jan01 = (''2024-01-01'', ''e1'')" "entry_key jan15 = (''2024-01-15'', ''e2'')"
    by (simp_all add: jan01_def jan15_def entry_key_entry)
  have o: "(''2024-01-01'', ''e1'') \<le> (''2024-01-15'', ''e2'')"
    "\<not> (''2024-01-15'', ''e2'') \<le> (''2024-01-01'', ''e1'')"
    by simp_all
  have "list_expenses (store_fs [jan01, jan15, feb01]) ''alice'' january =
      (Inr (sort_reverse (zip (map entry_key (filter (entry_matches january) [jan01, jan15, feb01]))
                              (filter (entry_matches january) [jan01, jan15, feb01]))),
       store_fs [jan01, jan15, feb01])"
    by (rule list_expenses_wf [OF load_store_fs three_entries_wf])
  then show ?thesis
    unfolding three_entries_january using o by (simp add: k sort_reverse_def)
qed

lemma list_three_entries_all:
  "list_expenses (store_fs [jan01, jan15, feb01]) ''alice'' None
     = (Inr [feb01, jan15, jan01], store_fs [jan01, jan15, feb01])"
proof -
  have m: "entry_matches None e" for e
    by (simp add: entry_matches_def present_def)
  have k: "entry_key jan01 = (''2024-01-01'', ''e1'')" "entry_key jan15 = (''2024-01-15'', ''e2'')"
    "entry_key feb01 = (''2024-02-01'', ''e3'')"
    by (simp_all add: jan01_def jan15_def feb01_def entry_key_entry)
  have o: "(''2024-01-01'', ''e1'') \<le> (''2024-01-15'', ''e2'')"
    "\<not> (''2024-01-15'', ''e2'') \<le> (''2024-01-01'', ''e1'')"
    "(''2024-01-15'', ''e2'') \<le> (''2024-02-01'', ''e3'')"
    "\<not> (''2024-02-01'', ''e3'') \<le> (''2024-01-15'', ''e2'')"
    "(''2024-01-01'', ''e1'') \<le> (''2024-02-01'', ''e3'')"
    "\<not> (''2024-02-01'', ''e3'') \<le> (''2024-01-01'', ''e1'')"
    by simp_all
  show ?thesis
    using o
    by (simp add: list_expenses_wf [OF load_store_fs three_entries_wf] m k sort_reverse_def)
qed

text \<open>
  Claim C3. Whatever the stored files and the filters, a sequence that \<^verbatim>\<open>list_expenses\<close>
  returns is sorted by the pair (date, id) descending: of two entries the one returned
  first has the later date, or the same date and an id that is not smaller; and every
  entry returned has a string for its date and for its id. On a collection of
  well-formed entries \<^verbatim>\<open>list_expenses\<close> does return. Two entries of one date with the ids
  \<^verbatim>\<open>exp_a\<close> and \<^verbatim>\<open>exp_b\<close> come back with \<^verbatim>\<open>exp_b\<close> first, in whichever order they are stored.
\<close>

theorem list_expenses_sorted:
  "(\<forall>out fs'. list_expenses fs u filters = (Inr out, fs') \<longrightarrow>
        sorted_wrt key_desc out
      \<and> list_all (\<lambda>e. entry_date e \<noteq> None \<and> entry_id e \<noteq> None) out)
   \<and> (\<forall>items fs'. load_expenses fs u = (Inr (VList items), fs') \<and> list_all wf_entry items \<longrightarrow>
        (\<exists>out. list_expenses fs u filters = (Inr out, fs')))
   \<and> list_expenses (store_fs [entry ''exp_a'' d c, entry ''exp_b'' d c]) u None
        = (Inr [entry ''exp_b'' d c, entry ''exp_a'' d c],
           store_fs [entry ''exp_a'' d c, entry ''exp_b'' d c])
   \<and> list_expenses (store_fs [entry ''exp_b'' d c, entry ''exp_a'' d c]) u None
        = (Inr [entry ''exp_b'' d c, entry ''exp_a'' d c],
           store_fs [entry ''exp_b'' d c, entry ''exp_a'' d c])"
proof -
  have 1: "sorted_wrt key_desc out
      \<and> list_all (\<lambda>e. entry_date e \<noteq> None \<and> entry_id e \<noteq> None) out"
    if run: "list_expenses fs u filters = (Inr out, fs')" for out fs'
  proof -
    from list_expenses_result [OF run] obtain xs where
      out: "out = sort_reverse (zip (map entry_key xs) xs)"
      and xs: "list_all (\<lambda>e. entry_date e \<noteq> None \<and> entry_id e \<noteq> None) xs"
      by blast
    have "mset out = mset xs"
      unfolding out by (rule mset_sort_reverse) simp
    then have "set out = set xs"
      by (rule mset_eq_setD)
    with xs have "list_all (\<lambda>e. entry_date e \<noteq> None \<and> entry_id e \<noteq> None) out"
      by (simp add: list_all_iff)
    moreover have "sorted_wrt key_desc out"
      unfolding out by (rule sort_reverse_key_desc)
    ultimately show ?thesis
      by simp
  qed
  have 2: "\<exists>out. list_expenses fs u filters = (Inr out, fs')"
    if "load_expenses fs u = (Inr (VList items), fs') \<and> list_all wf_entry items" for items fs'
    using that list_expenses_wf [of fs u items fs' filters] by blast
  from 1 2 list_tie_break [of d c u] show ?thesis
    by blast
qed

theorem list_expenses_sorted_witness:
  "load_expenses (store_fs [jan01, jan15, feb01]) ''alice''
     = (Inr (VList [jan01, jan15, feb01]), store_fs [jan01, jan15, feb01])
   \<and> list_all wf_entry [jan01, jan15, feb01]
   \<and> list_expenses (store_fs [jan01, jan15, feb01]) ''alice'' None
       = (Inr [feb01, jan15, jan01], store_fs [jan01, jan15, feb01])
   \<and> sorted_wrt key_desc [feb01, jan15, jan01]
   \<and> list_all (\<lambda>e. entry_date e \<noteq> None \<and> entry_id e \<noteq> None) [feb01, jan15, jan01]"
proof -
  note inst = list_expenses_sorted [of "store_fs [jan01, jan15, feb01]" "''alice''" None]
  from inst list_three_entries_all
  have "sorted_wrt key_desc [feb01, jan15, jan01]
      \<and> list_all (\<lambda>e. entry_date e \<noteq> None \<and> entry_id e \<noteq> None) [feb01, jan15, jan01]"
    by blast
  then show ?thesis
    using load_store_fs [of "[jan01, jan15, feb01]" "''alice''"] three_entries_wf
      list_three_entries_all
    by blast
qed

text \<open>
  Claim C4. An entry matches when it satisfies every filter that is present: its date is
  a string at least \<^verbatim>\<open>from_date\<close>, at most \<^verbatim>\<open>to_date\<close> (strings compared by code point), its
  category is the string \<^verbatim>\<open>category\<close>. Whatever the stored collection and the filters, a
  sequence that \<^verbatim>\<open>list_expenses\<close> returns holds exactly the matching entries of the
  collection, each as often as the collection has it. On a collection of well-formed
  entries \<^verbatim>\<open>list_expenses\<close> does return, without changing a file: the whole collection when
  none of the three filters is present, and the empty sequence when no entry matches.
\<close>

theorem list_expenses_filters:
  "(\<forall>items fs1 out fs2.
        load_expenses fs u = (Inr (VList items), fs1)
      \<and> list_expenses fs u filters = (Inr out, fs2) \<longrightarrow>
        mset out = mset (filter (entry_matches filters) items))
   \<and> (\<forall>items fs1. load_expenses fs u = (Inr (VList items), fs1) \<and> list_all wf_entry items \<longrightarrow>
        (\<exists>out. list_expenses fs u filters = (Inr out, fs1)
           \<and> mset out = mset (filter (entry_matches filters) items)
           \<and> (present filters ''from_date'' = None \<and> present filters ''to_date'' = None
                \<and> present filters ''category'' = None \<longrightarrow> mset out = mset items)
           \<and> ((\<forall>e \<in> set items. \<not> entry_matches filters e) \<longrightarrow> out = [])))
   \<and> (entry_matches filters e \<longleftrightarrow>
         (\<forall>f. present filters ''from_date'' = Some f \<longrightarrow> (\<exists>d. entry_date e = Some d \<and> f \<le> d))
       \<and> (\<forall>t. present filters ''to_date'' = Some t \<longrightarrow> (\<exists>d. entry_date e = Some d \<and> d \<le> t))
       \<and> (\<forall>c. present filters ''category'' = Some c \<longrightarrow> entry_category e = Some (VStr c)))"
proof -
  have 1: "mset out = mset (filter (entry_matches filters) items)"
    if l: "load_expenses fs u = (Inr (VList items), fs1)"
      and run: "list_expenses fs u filters = (Inr out, fs2)" for items fs1 out fs2
  proof -
    from list_expenses_result [OF run] l obtain xs where
      a: "apply_filters filters (VList items) = Inr (VList xs)"
      and out: "out = sort_reverse (zip (map entry_key xs) xs)"
      by auto
    from apply_filters_result [OF a] have "xs = filter (entry_matches filters) items"
      by simp
    moreover have "mset out = mset xs"
      unfolding out by (rule mset_sort_reverse) simp
    ultimately show ?thesis
      by simp
  qed
  have 2: "\<exists>out. list_expenses fs u filters = (Inr out, fs1)
           \<and> mset out = mset (filter (entry_matches filters) items)
           \<and> (present filters ''from_date'' = None \<and> present filters ''to_date'' = None
                \<and> present filters ''category'' = None \<longrightarrow> mset out = mset items)
           \<and> ((\<forall>e \<in> set items. \<not> entry_matches filters e) \<longrightarrow> out = [])"
    if l: "load_expenses fs u = (Inr (VList items), fs1)" and w: "list_all wf_entry items"
    for items fs1
  proof -
    let ?ys = "filter (entry_matches filters) items"
    let ?out = "sort_reverse (zip (map entry_key ?ys) ?ys)"
    have run: "list_expenses fs u filters = (Inr ?out, fs1)"
      using l w by (rule list_expenses_wf)
    have m: "mset ?out = mset ?ys"
      by (rule mset_sort_reverse) simp
    have "mset ?out = mset items"
      if "present filters ''from_date'' = None \<and> present filters ''to_date'' = None
                \<and> present filters ''category'' = None"
    proof -
      from that have "entry_matches filters e" for e
        by (simp add: entry_matches_def)
      then have "?ys = items"
        by simp
      with m show ?thesis
        by simp
    qed
    moreover have "?out = []" if "\<forall>e \<in> set items. \<not> entry_matches filters e"
    proof -
      from that have "?ys = []"
        by (simp add: filter_empty_conv)
      then show ?thesis
        by (simp add: sort_reverse_def)
    qed
    ultimately show ?thesis
      using run m by blast
  qed
  have 3: "entry_matches filters e \<longleftrightarrow>
         (\<forall>f. present filters ''from_date'' = Some f \<longrightarrow> (\<exists>d. entry_date e = Some d \<and> f \<le> d))
       \<and> (\<forall>t. present filters ''to_date'' = Some t \<longrightarrow> (\<exists>d. entry_date e = Some d \<and> d \<le> t))
       \<and> (\<forall>c. present filters ''category'' = Some c \<longrightarrow> entry_category e = Some (VStr c))"
    by (auto simp: entry_matches_def date_from_def date_to_def category_is_def
          split: option.splits)
  from 1 2 3 show ?thesis
    by blast
qed

theorem list_expenses_filters_witness:
  "load_expenses (store_fs [jan01, jan15, feb01]) ''alice''
     = (Inr (VList [jan01, jan15, feb01]), store_fs [jan01, jan15, feb01])
   \<and> list_all wf_entry [jan01, jan15, feb01]
   \<and> list_expenses (store_fs [jan01, jan15, feb01]) ''alice'' january
       = (Inr [jan15, jan01], store_fs [jan01, jan15, feb01])
   \<and> filter (entry_matches january) [jan01, jan15, feb01] = [jan01, jan15]
   \<and> mset [jan15, jan01] = mset (filter (entry_matches january) [jan01, jan15, feb01])"
proof -
  note inst = list_expenses_filters [of "store_fs [jan01, jan15, feb01]" "''alice''" january]
  from inst load_store_fs [of "[jan01, jan15, feb01]" "''alice''"] list_three_entries_january
  have "mset [jan15, jan01] = mset (filter (entry_matches january) [jan01, jan15, feb01])"
    by blast
  then show ?thesis
    using load_store_fs [of "[jan01, jan15, feb01]" "''alice''"] three_entries_wf
      list_three_entries_january three_entries_january
    by blast
qed

section \<open>The category is stored as supplied\<close>

lemma validate_required_text_string:
  "py_strip c \<noteq> [] \<Longrightarrow> validate_required_text R (VStr c) field = Inr ()"
  by (auto simp: validate_required_text_def py_strip_examples(6))

lemma category_filter_mismatch:
  assumes "py_item e ''category'' = Inr (VStr c)" and "map_of filters ''category'' = Some f"
    and "f \<noteq> c"
  shows "\<not> entry_matches (Some filters) e"
  using assms by (simp add: entry_matches_def present_def category_is_def entry_category_def)

lemma list_expenses_returns_matching:
  assumes "list_expenses fs u filters = (Inr out, fs')"
    and "load_expenses fs u = (Inr (VList items), fs1)"
  shows "set out = {e \<in> set items. entry_matches filters e}"
proof -
  from list_expenses_result [OF assms(1)] assms(2) obtain xs where
    a: "apply_filters filters (VList items) = Inr (VList xs)"
    and out: "out = sort_reverse (zip (map entry_key xs) xs)"
    by auto
  from apply_filters_result [OF a] have xs: "xs = filter (entry_matches filters) items"
    by simp
  have "mset out = mset xs"
    unfolding out by (rule mset_sort_reverse) simp
  then have "set out = set xs"
    by (rule mset_eq_setD)
  with xs show ?thesis
    by simp
qed

lemma wf_entry_spaced: "wf_entry entry_spaced"
  by (simp add: wf_entry_def entry_spaced_def entry_date_def entry_id_def entry_category_def
        dict_item_def)

lemma list_spaced_by_category:
  "list_expenses (fs_with entry_spaced) ''alice'' (Some [(''category'', ''Food'')])
     = (Inr [], fs_with entry_spaced)"
  "list_expenses (fs_with entry_spaced) ''alice'' (Some [(''category'', '' Food '')])
     = (Inr [entry_spaced], fs_with entry_spaced)"
proof -
  have c: "entry_category entry_spaced = Some (VStr '' Food '')"
    by (simp add: entry_spaced_def entry_category_def dict_item_def)
  have w: "list_all wf_entry [entry_spaced]"
    by (simp add: wf_entry_spaced)
  have 1: "filter (entry_matches (Some [(''category'', ''Food'')])) [entry_spaced] = []"
    by (simp add: entry_matches_def present_def category_is_def c)
  have 2: "filter (entry_matches (Some [(''category'', '' Food '')])) [entry_spaced] = [entry_spaced]"
    by (simp add: entry_matches_def present_def category_is_def c)
  have "list_expenses (fs_with entry_spaced) ''alice'' (Some [(''category'', ''Food'')]) =
      (Inr (sort_reverse (zip (map entry_key (filter (entry_matches (Some [(''category'', ''Food'')])) [entry_spaced]))
                              (filter (entry_matches (Some [(''category'', ''Food'')])) [entry_spaced]))),
       fs_with entry_spaced)"
    by (rule list_expenses_wf [OF load_fs_with w])
  then show "list_expenses (fs_with entry_spaced) ''alice'' (Some [(''category'', ''Food'')])
     = (Inr [], fs_with entry_spaced)"
    unfolding 1 by (simp add: sort_reverse_def)
  have "list_expenses (fs_with entry_spaced) ''alice'' (Some [(''category'', '' Food '')]) =
      (Inr (sort_reverse (zip (map entry_key (filter (entry_matches (Some [(''category'', '' Food '')])) [entry_spaced]))
                              (filter (entry_matches (Some [(''category'', '' Food '')])) [entry_spaced]))),
       fs_with entry_spaced)"
    by (rule list_expenses_wf [OF load_fs_with w])
  then show "list_expenses (fs_with entry_spaced) ''alice'' (Some [(''category'', '' Food '')])
     = (Inr [entry_spaced], fs_with entry_spaced)"
    unfolding 2 by (simp add: sort_reverse_def)
qed

text \<open>
  Claim C10. Let the category of the payload be a string that is not empty after
  trimming. Then the category check passes, and whenever \<^verbatim>\<open>add_expense\<close> returns an id the
  entry stored last has this id and has for its category the string of the payload,
  character for character, blanks at the ends included. So that entry matches no
  category filter with another string, and no \<^verbatim>\<open>list_expenses\<close> query with such a filter
  returns it. The payload with the category \<^verbatim>\<open>" Food "\<close> is stored with \<^verbatim>\<open>" Food "\<close>; the
  query for the category \<^verbatim>\<open>"Food"\<close> then returns nothing, the one for \<^verbatim>\<open>" Food "\<close> the entry.
\<close>

theorem add_expense_keeps_category_verbatim:
  assumes "map_of payload ''category'' = Some (VStr c)" and "py_strip c \<noteq> []"
  shows "validate_required_text R (dict_get payload ''category'' VNone) ''category'' = Inr ()
   \<and> (\<forall>eid fs'. add_expense R fs u payload today now = (Inr eid, fs') \<longrightarrow>
        (\<exists>xs e. load_expenses fs' u = (Inr (VList (xs @ [e])), fs')
           \<and> py_item e ''id'' = Inr (VStr eid)
           \<and> py_item e ''category'' = Inr (VStr c)
           \<and> (\<forall>filters f out fs''.
                  map_of filters ''category'' = Some f \<and> f \<noteq> c
                \<and> list_expenses fs' u (Some filters) = (Inr out, fs'') \<longrightarrow> e \<notin> set out)))
   \<and> add_expense repr_0 fresh_fs ''alice'' payload_spaced clock_0 clock_0
        = (Inr ''exp_20250907_153045000123'', fs_with entry_spaced)
   \<and> py_item entry_spaced ''category'' = Inr (VStr '' Food '')
   \<and> list_expenses (fs_with entry_spaced) ''alice'' (Some [(''category'', ''Food'')])
        = (Inr [], fs_with entry_spaced)
   \<and> list_expenses (fs_with entry_spaced) ''alice'' (Some [(''category'', '' Food '')])
        = (Inr [entry_spaced], fs_with entry_spaced)"
proof -
  have 1: "validate_required_text R (dict_get payload ''category'' VNone) ''category'' = Inr ()"
    using assms by (simp add: dict_get_def validate_required_text_string)
  have 2: "\<exists>xs e. load_expenses fs' u = (Inr (VList (xs @ [e])), fs')
           \<and> py_item e ''id'' = Inr (VStr eid)
           \<and> py_item e ''category'' = Inr (VStr c)
           \<and> (\<forall>filters f out fs''.
                  map_of filters ''category'' = Some f \<and> f \<noteq> c
                \<and> list_expenses fs' u (Some filters) = (Inr out, fs'') \<longrightarrow> e \<notin> set out)"
    if run: "add_expense R fs u payload today now = (Inr eid, fs')" for eid fs'
  proof -
    from add_expense_outcome [OF run] obtain xs a c' tags where
      i: "eid = generate_expense_id now"
      and c': "map_of payload ''category'' = Some c'"
      and f: "fs' = fs(expenses_path u := File True True (Json (json_norm (VDict [(''expenses'',
               VList (xs @ [new_expense (generate_expense_id now) (resolve_date payload today) a c'
                 (dict_get payload ''description'' (VStr []))
                 (dict_get payload ''payment_method'' (VStr [])) tags]))]))))"
      by auto
    let ?new = "new_expense (generate_expense_id now) (resolve_date payload today) a (VStr c)
                 (dict_get payload ''description'' (VStr []))
                 (dict_get payload ''payment_method'' (VStr [])) tags"
    let ?e = "json_norm ?new"
    from c' assms(1) have cc: "c' = VStr c"
      by simp
    have "load_expenses fs' u = (Inr (VList (map json_norm (xs @ [?new]))), fs')"
      unfolding f cc by (rule load_expenses_after_save)
    then have l: "load_expenses fs' u = (Inr (VList (map json_norm xs @ [?e])), fs')"
      by simp
    have id: "py_item ?e ''id'' = Inr (VStr eid)"
      by (simp add: new_expense_def dict_item_def i)
    have cat: "py_item ?e ''category'' = Inr (VStr c)"
      by (simp add: new_expense_def dict_item_def)
    have "?e \<notin> set out"
      if q: "map_of filters ''category'' = Some f \<and> f \<noteq> c
                \<and> list_expenses fs' u (Some filters) = (Inr out, fs'')"
      for filters f out fs''
    proof -
      from q have m: "map_of filters ''category'' = Some f" and n: "f \<noteq> c"
        and r: "list_expenses fs' u (Some filters) = (Inr out, fs'')"
        by blast+
      from list_expenses_returns_matching [OF r l]
      have "set out = {x \<in> set (map json_norm xs @ [?e]). entry_matches (Some filters) x}" .
      with category_filter_mismatch [OF cat m n] show ?thesis
        by simp
    qed
    with l id cat show ?thesis
      by blast
  qed
  have 3: "py_item entry_spaced ''category'' = Inr (VStr '' Food '')"
    by (simp add: entry_spaced_def dict_item_def)
  from 1 2 3 show ?thesis
    using add_expense_payload_spaced list_spaced_by_category by blast
qed

theorem add_expense_keeps_category_verbatim_witness:
  "map_of payload_spaced ''category'' = Some (VStr '' Food '')
   \<and> py_strip '' Food '' = ''Food''
   \<and> validate_required_text repr_0 (dict_get payload_spaced ''category'' VNone) ''category'' = Inr ()
   \<and> add_expense repr_0 fresh_fs ''alice'' payload_spaced clock_0 clock_0
        = (Inr ''exp_20250907_153045000123'', fs_with entry_spaced)
   \<and> load_expenses (fs_with entry_spaced) ''alice''
        = (Inr (VList [entry_spaced]), fs_with entry_spaced)
   \<and> py_item entry_spaced ''category'' = Inr (VStr '' Food '')
   \<and> list_expenses (fs_with entry_spaced) ''alice'' (Some [(''category'', ''Food'')])
        = (Inr [], fs_with entry_spaced)"
proof -
  have a: "map_of payload_spaced ''category'' = Some (VStr '' Food '')"
    by (simp add: payload_spaced_def)
  have b: "py_strip '' Food '' \<noteq> []"
    by (simp add: py_strip_spaced_Food)
  note inst = add_expense_keeps_category_verbatim [OF a b, of repr_0 fresh_fs "''alice''" clock_0 clock_0]
  from inst have
    "validate_required_text repr_0 (dict_get payload_spaced ''category'' VNone) ''category'' = Inr ()"
    "py_item entry_spaced ''category'' = Inr (VStr '' Food '')"
    "list_expenses (fs_with entry_spaced) ''alice'' (Some [(''category'', ''Food'')])
        = (Inr [], fs_with entry_spaced)"
    by blast+
  then show ?thesis
    using a py_strip_spaced_Food add_expense_payload_spaced load_fs_with [of entry_spaced]
    by blast
qed

end
